theory Spec2Isabelle
  imports Main "HOL-Library.Word"
begin

section \<open>The plot canvas of gazebo/gui/plot/PlotCanvas.cc\<close>

text \<open>
  The canvas keeps a \<^verbatim>\<open>std::map\<close> from plot ids to plot records, each with a
  \<^verbatim>\<open>std::map\<close> from variable ids to curve ids. All ids are \<^verbatim>\<open>unsigned int\<close>,
  here 32-bit words, so that the post-increment of the global plot counter wraps as it
  does in C++.
\<close>

type_synonym uint = "32 word"

subsection \<open>std::map as a key-ordered association list\<close>

text \<open>
  Iteration over a \<^verbatim>\<open>std::map\<close> visits the keys in ascending order, and several
  loops of the canvas stop at the first record that matches, so the order is part of
  the model: a map is a list of pairs kept in ascending key order. \<open>find\<close> is
  \<^const>\<open>map_of\<close>; \<open>m[k] = v\<close> is \<open>map_assign\<close>; \<open>erase\<close> is \<open>map_erase\<close>.
\<close>

fun map_assign :: "'k::linorder \<Rightarrow> 'v \<Rightarrow> ('k \<times> 'v) list \<Rightarrow> ('k \<times> 'v) list" where
  "map_assign k v [] = [(k, v)]"
| "map_assign k v ((k', v') # m) =
     (if k < k' then (k, v) # (k', v') # m
      else if k = k' then (k, v) # m
      else (k', v') # map_assign k v m)"

definition map_erase :: "'k \<Rightarrow> ('k \<times> 'v) list \<Rightarrow> ('k \<times> 'v) list" where
  "map_erase k m = filter (\<lambda>kv. fst kv \<noteq> k) m"

definition map_sorted :: "('k::linorder \<times> 'v) list \<Rightarrow> bool" where
  "map_sorted m = sorted_wrt (<) (map fst m)"

subsection \<open>Sentinels\<close>

text \<open>
  \<^verbatim>\<open>unsigned int PlotCanvas::EMPTY_PLOT = IGN_UINT32_MAX;\<close>
\<close>

definition EMPTY_PLOT :: uint where
  "EMPTY_PLOT = 0xFFFFFFFF"

text \<open>
  Modelled from the spec: \<^verbatim>\<open>VariablePill::EMPTY_VARIABLE\<close> is declared in
  VariablePill.hh, which is not among the sources; the spec calls it the "no anchor"
  sentinel of the slot container. It is the largest unsigned value, like \<open>EMPTY_PLOT\<close>.
\<close>

definition EMPTY_VARIABLE :: uint where
  "EMPTY_VARIABLE = 0xFFFFFFFF"

subsection \<open>The collaborators: curves, plot handles, registry, slot container\<close>

text \<open>
  Modelled from the spec: PlotCurve.hh is not among the sources. A curve has a unique
  id, a label, the \<open>Active\<close> flag and an age counter (spec 4.2); a created curve is
  active with age 0.
\<close>

record PlotCurve =
  cId :: uint
  cLabel :: string
  cActive :: bool
  cAge :: uint

text \<open>
  Modelled from the spec: IncrementalPlot.hh is not among the sources. A plot handle is
  an object with an identity (here a number standing for its address) that holds its
  curves by curve id. Spec 6 lists its operations: CreateCurve(name), RemoveCurve(curveId),
  DetachCurve(curveId), AttachCurve(curve), SetCurveLabel(curveId, label),
  LookupCurve(curveId). A lookup or a detach of an id the plot does not hold gives the
  null reference, here \<open>None\<close>.
\<close>

record IncrementalPlot =
  handle :: nat
  curves :: "(uint \<times> PlotCurve) list"

definition IncrementalPlot_Curve :: "IncrementalPlot \<Rightarrow> uint \<Rightarrow> PlotCurve option" where
  "IncrementalPlot_Curve p i = map_of (curves p) i"

definition IncrementalPlot_AddCurve ::
  "string \<Rightarrow> uint \<Rightarrow> IncrementalPlot \<Rightarrow> PlotCurve \<times> IncrementalPlot" where
  "IncrementalPlot_AddCurve label fresh p =
     (let c = \<lparr>cId = fresh, cLabel = label, cActive = True, cAge = 0\<rparr>
      in (c, p\<lparr>curves := map_assign fresh c (curves p)\<rparr>))"

definition IncrementalPlot_RemoveCurve :: "uint \<Rightarrow> IncrementalPlot \<Rightarrow> IncrementalPlot" where
  "IncrementalPlot_RemoveCurve i p = p\<lparr>curves := map_erase i (curves p)\<rparr>"

definition IncrementalPlot_DetachCurve ::
  "uint \<Rightarrow> IncrementalPlot \<Rightarrow> PlotCurve option \<times> IncrementalPlot" where
  "IncrementalPlot_DetachCurve i p =
     (case map_of (curves p) i of
        None \<Rightarrow> (None, p)
      | Some c \<Rightarrow> (Some c, p\<lparr>curves := map_erase i (curves p)\<rparr>))"

definition IncrementalPlot_AttachCurve :: "PlotCurve \<Rightarrow> IncrementalPlot \<Rightarrow> IncrementalPlot" where
  "IncrementalPlot_AttachCurve c p = p\<lparr>curves := map_assign (cId c) c (curves p)\<rparr>"

definition IncrementalPlot_SetCurveLabel ::
  "uint \<Rightarrow> string \<Rightarrow> IncrementalPlot \<Rightarrow> IncrementalPlot" where
  "IncrementalPlot_SetCurveLabel i label p =
     (case map_of (curves p) i of
        None \<Rightarrow> p
      | Some c \<Rightarrow> p\<lparr>curves := map_assign i (c\<lparr>cLabel := label\<rparr>) (curves p)\<rparr>)"

text \<open>
  Modelled from the spec: the curve registry (PlotManager) is not among the sources.
  Spec 6: RegisterCurve(name, curve) and UnregisterCurve(curve), idempotent; spec 5:
  removing a curve the registry does not know, or the null reference, is a no-op. The
  registry refers to curves by their ids.
\<close>

definition PlotManager_AddCurve :: "string \<Rightarrow> PlotCurve \<Rightarrow> (string \<times> uint) list \<Rightarrow> (string \<times> uint) list" where
  "PlotManager_AddCurve name c reg = reg @ [(name, cId c)]"

definition PlotManager_RemoveCurve :: "PlotCurve option \<Rightarrow> (string \<times> uint) list \<Rightarrow> (string \<times> uint) list" where
  "PlotManager_RemoveCurve c reg =
     (case c of None \<Rightarrow> reg | Some c' \<Rightarrow> filter (\<lambda>e. snd e \<noteq> cId c') reg)"

text \<open>
  Modelled from the spec: VariablePill.hh and VariablePillContainer.hh are not among the
  sources. A slot (pill) has the name of its variable and the text it shows, which
  starts as the name and which SetSlotLabel replaces. Spec 6: AddSlot(name, anchorId)
  gives a new id, RemoveSlot(id), SetSlotLabel(id, label), LookupSlot(id).
\<close>

record VariablePill =
  Name :: string
  Text :: string

subsection \<open>The canvas state\<close>

text \<open>
  \<^verbatim>\<open>class PlotData { unsigned int id; IncrementalPlot *plot; std::map<unsigned int,
  unsigned int> variableCurves; }\<close>. A record and its plot are created and deleted
  together, so the identity of the plot handle is also the identity of the record.
\<close>

record PlotData =
  idPlot :: uint
  plot :: IncrementalPlot
  variableCurves :: "(uint \<times> uint) list"

text \<open>
  \<^verbatim>\<open>struct PlotCanvasPrivate\<close>, with the state of the collaborators the canvas drives:
  \<open>plotLayout\<close> lists the handles of the plots placed in the layout, \<open>emptyPlot\<close> is
  the visibility of the placeholder plot, \<open>yVariableContainer\<close> the slots of the
  container, \<open>plotManager\<close> the registry. \<open>globalPlotId\<close> is the static plot counter;
  \<open>globalVariableId\<close> and \<open>globalCurveId\<close> are the id counters of slots and curves,
  \<open>nextHandle\<close> the next address \<^verbatim>\<open>new IncrementalPlot\<close> returns.
\<close>

record PlotCanvas =
  plotLayout :: "nat list"
  plotData :: "(uint \<times> PlotData) list"
  emptyPlot :: bool
  yVariableContainer :: "(uint \<times> VariablePill) list"
  plotManager :: "(string \<times> uint) list"
  globalPlotId :: uint
  globalVariableId :: uint
  globalCurveId :: uint
  nextHandle :: nat

text \<open>
  The constructed canvas: no plot records, the placeholder (handle 0) placed in the
  layout and visible, no slots. The plot counter starts at 0 as the static initialiser
  says; the counters of slots and curves, which the collaborators own, start at 0 too.
\<close>

definition PlotCanvas_new :: PlotCanvas where
  "PlotCanvas_new =
     \<lparr>plotLayout = [0], plotData = [], emptyPlot = True, yVariableContainer = [],
      plotManager = [], globalPlotId = 0, globalVariableId = 0, globalCurveId = 0,
      nextHandle = 1\<rparr>"

text \<open>\<^verbatim>\<open>plotLayout->takeAt(plotLayout->indexOf(plot))\<close>: the first occurrence leaves.\<close>

definition takeAt_indexOf :: "nat \<Rightarrow> nat list \<Rightarrow> nat list" where
  "takeAt_indexOf h l = remove1 h l"

text \<open>
  The two statements that keep the placeholder in step with the map:
  \<^verbatim>\<open>if (plotData.empty() && emptyPlot) emptyPlot->setVisible(true);\<close> and
  \<^verbatim>\<open>if (!plotData.empty() && emptyPlot) emptyPlot->setVisible(false);\<close>. The pointer
  \<open>emptyPlot\<close> is set by the constructor and never reset, so it is not null.
\<close>

definition showEmptyPlot :: "PlotCanvas \<Rightarrow> PlotCanvas" where
  "showEmptyPlot s = (if plotData s = [] then s\<lparr>emptyPlot := True\<rparr> else s)"

definition hideEmptyPlot :: "PlotCanvas \<Rightarrow> PlotCanvas" where
  "hideEmptyPlot s = (if plotData s \<noteq> [] then s\<lparr>emptyPlot := False\<rparr> else s)"

subsection \<open>AddPlot, AddVariable\<close>

definition AddPlot :: "PlotCanvas \<Rightarrow> uint \<times> PlotCanvas" where
  "AddPlot s =
     (let p = \<lparr>handle = nextHandle s, curves = []\<rparr>;
          d = \<lparr>idPlot = globalPlotId s, plot = p, variableCurves = []\<rparr>
      in (idPlot d,
          s\<lparr>plotLayout := plotLayout s @ [handle p],
            plotData := map_assign (idPlot d) d (plotData s),
            globalPlotId := globalPlotId s + 1,
            nextHandle := Suc (nextHandle s)\<rparr>))"

text \<open>\<^verbatim>\<open>void PlotCanvas::AddVariable(_id, _variable, _plotId)\<close>\<close>

definition AddVariable :: "uint \<Rightarrow> string \<Rightarrow> uint \<Rightarrow> PlotCanvas \<Rightarrow> PlotCanvas" where
  "AddVariable i variable plotId' s =
     (let (plotId, s1) = (if plotId' = EMPTY_PLOT then AddPlot s else (plotId', s))
      in case map_of (plotData s1) plotId of
           None \<Rightarrow> s1
         | Some d \<Rightarrow>
             (let (c, p) = IncrementalPlot_AddCurve variable (globalCurveId s1) (plot d);
                  d' = d\<lparr>plot := p, variableCurves := map_assign i (cId c) (variableCurves d)\<rparr>;
                  s2 = s1\<lparr>plotData := map_assign plotId d' (plotData s1),
                          globalCurveId := globalCurveId s1 + 1\<rparr>;
                  s3 = hideEmptyPlot s2
              in s3\<lparr>plotManager := PlotManager_AddCurve variable c (plotManager s3)\<rparr>))"

subsection \<open>RemoveVariable, both overloads\<close>

text \<open>
  The loops of RemoveVariable, PlotByVariable, OnAddVariable and OnSetVariableLabel all
  walk the records in key order and stop at the first one whose mapping holds the
  variable.
\<close>

fun findVariable :: "uint \<Rightarrow> (uint \<times> PlotData) list \<Rightarrow> (uint \<times> PlotData \<times> uint) option" where
  "findVariable i [] = None"
| "findVariable i ((k, d) # m) =
     (case map_of (variableCurves d) i of
        Some curveId \<Rightarrow> Some (k, d, curveId)
      | None \<Rightarrow> findVariable i m)"

text \<open>
  \<^verbatim>\<open>void PlotCanvas::RemoveVariable(_id)\<close>. The registry is asked to remove
  \<^verbatim>\<open>it->second->plot->Curve(_id)\<close>: the lookup is given the variable id.
\<close>

definition RemoveVariable :: "uint \<Rightarrow> PlotCanvas \<Rightarrow> PlotCanvas" where
  "RemoveVariable i s =
     (let s1 =
        (case findVariable i (plotData s) of
           None \<Rightarrow> s
         | Some (k, d, curveId) \<Rightarrow>
             (let vc = map_erase i (variableCurves d)
              in if vc = [] then
                   s\<lparr>plotManager :=
                       PlotManager_RemoveCurve (IncrementalPlot_Curve (plot d) i) (plotManager s),
                     yVariableContainer := map_erase i (yVariableContainer s),
                     plotLayout := takeAt_indexOf (handle (plot d)) (plotLayout s),
                     plotData := map_erase k (plotData s)\<rparr>
                 else
                   s\<lparr>plotData := map_assign k
                        (d\<lparr>variableCurves := vc,
                           plot := IncrementalPlot_RemoveCurve curveId (plot d)\<rparr>)
                        (plotData s)\<rparr>))
      in showEmptyPlot s1)"

text \<open>\<^verbatim>\<open>void PlotCanvas::RemoveVariable(_id, _plotId)\<close>\<close>

definition RemoveVariable_plot :: "uint \<Rightarrow> uint \<Rightarrow> PlotCanvas \<Rightarrow> PlotCanvas" where
  "RemoveVariable_plot i plotId s =
     (case map_of (plotData s) plotId of
        None \<Rightarrow> s
      | Some d \<Rightarrow>
          (case map_of (variableCurves d) i of
             None \<Rightarrow> s
           | Some curveId \<Rightarrow>
               (let s1 = s\<lparr>plotManager :=
                           PlotManager_RemoveCurve (IncrementalPlot_Curve (plot d) i) (plotManager s)\<rparr>;
                    vc = map_erase i (variableCurves d);
                    s2 = (if vc = [] then
                            s1\<lparr>plotLayout := takeAt_indexOf (handle (plot d)) (plotLayout s1),
                               plotData := map_erase plotId (plotData s1)\<rparr>
                          else
                            s1\<lparr>plotData := map_assign plotId
                                 (d\<lparr>variableCurves := vc,
                                    plot := IncrementalPlot_RemoveCurve curveId (plot d)\<rparr>)
                                 (plotData s1)\<rparr>);
                    s3 = showEmptyPlot s2
                in s3\<lparr>yVariableContainer := map_erase i (yVariableContainer s3)\<rparr>)))"

subsection \<open>Facts about the map operations\<close>

lemma showEmptyPlot_fields [simp]:
  "plotData (showEmptyPlot s) = plotData s"
  "plotLayout (showEmptyPlot s) = plotLayout s"
  "yVariableContainer (showEmptyPlot s) = yVariableContainer s"
  "plotManager (showEmptyPlot s) = plotManager s"
  "globalPlotId (showEmptyPlot s) = globalPlotId s"
  "globalVariableId (showEmptyPlot s) = globalVariableId s"
  "globalCurveId (showEmptyPlot s) = globalCurveId s"
  "nextHandle (showEmptyPlot s) = nextHandle s"
  "emptyPlot (showEmptyPlot s) = (emptyPlot s \<or> plotData s = [])"
  by (simp_all add: showEmptyPlot_def)

lemma hideEmptyPlot_fields [simp]:
  "plotData (hideEmptyPlot s) = plotData s"
  "plotLayout (hideEmptyPlot s) = plotLayout s"
  "yVariableContainer (hideEmptyPlot s) = yVariableContainer s"
  "plotManager (hideEmptyPlot s) = plotManager s"
  "globalPlotId (hideEmptyPlot s) = globalPlotId s"
  "globalVariableId (hideEmptyPlot s) = globalVariableId s"
  "globalCurveId (hideEmptyPlot s) = globalCurveId s"
  "nextHandle (hideEmptyPlot s) = nextHandle s"
  "emptyPlot (hideEmptyPlot s) = (emptyPlot s \<and> plotData s = [])"
  by (simp_all add: hideEmptyPlot_def)

lemma map_of_map_assign: "map_of (map_assign k v m) = (map_of m)(k \<mapsto> v)"
  by (induction m) (auto simp: fun_eq_iff)

lemma map_of_map_erase: "map_of (map_erase k m) = (map_of m)(k := None)"
  by (induction m) (auto simp: map_erase_def fun_eq_iff)

lemma map_erase_idem: "map_erase k (map_erase k m) = map_erase k m"
  by (simp add: map_erase_def)

lemma map_erase_map_assign: "map_erase k (map_assign k v m) = map_erase k m"
  by (induction m) (auto simp: map_erase_def)

lemma map_erase_absent: "map_of m k = None \<Longrightarrow> map_erase k m = m"
  by (induction m) (auto simp: map_erase_def split: if_splits)

lemma length_map_erase_le: "length (map_erase k m) \<le> length m"
  by (simp add: map_erase_def)

lemma length_map_erase_hd: "m \<noteq> [] \<Longrightarrow> length (map_erase (fst (hd m)) m) < length m"
  by (cases m) (auto simp: map_erase_def less_Suc_eq_le)

lemma map_of_hd: "m \<noteq> [] \<Longrightarrow> map_of m (fst (hd m)) = Some (snd (hd m))"
  by (cases m) auto

lemma map_assign_not_Nil: "map_assign k v m \<noteq> []"
  by (cases m) (auto split: if_splits)

lemma set_map_assign: "set (map_assign k v m) \<subseteq> insert (k, v) (set m)"
  by (induction m) (auto split: if_splits)

lemma set_map_erase: "set (map_erase k m) \<subseteq> set m"
  by (auto simp: map_erase_def)

subsection \<open>RemovePlot, Clear\<close>

lemma RemoveVariable_plot_measure:
  assumes "map_of (plotData s) plotId = Some d" and "variableCurves d \<noteq> []"
  shows "(case map_of (plotData (RemoveVariable_plot (fst (hd (variableCurves d))) plotId s)) plotId of
            None \<Rightarrow> 0 | Some d' \<Rightarrow> length (variableCurves d'))
         < length (variableCurves d)"
  using assms length_map_erase_hd [of "variableCurves d"]
  by (simp add: RemoveVariable_plot_def map_of_hd Let_def map_of_map_erase map_of_map_assign)

text \<open>
  \<^verbatim>\<open>while (it->second->variableCurves.size() > 1) { auto v = ...begin();
  this->RemoveVariable(v->first, plotId); }\<close>. The iterator \<open>it\<close> stays on the record
  of \<open>plotId\<close>, which the model reads again from the map at each turn.
\<close>

function RemovePlot_loop :: "uint \<Rightarrow> PlotCanvas \<Rightarrow> PlotCanvas" where
  "RemovePlot_loop plotId s =
     (case map_of (plotData s) plotId of
        None \<Rightarrow> s
      | Some d \<Rightarrow>
          (if 1 < length (variableCurves d)
           then RemovePlot_loop plotId (RemoveVariable_plot (fst (hd (variableCurves d))) plotId s)
           else s))"
  by pat_completeness auto
termination
proof (relation "measure (\<lambda>(plotId, s). case map_of (plotData s) plotId of
                    None \<Rightarrow> 0 | Some d \<Rightarrow> length (variableCurves d))", goal_cases)
  case 1
  show ?case by simp
next
  case (2 plotId s d)
  then have "variableCurves d \<noteq> []" by auto
  with 2 RemoveVariable_plot_measure [of s plotId d] show ?case by simp
qed

declare RemovePlot_loop.simps [simp del]

lemma RemovePlot_loop_None:
  "map_of (plotData s) k = None \<Longrightarrow> RemovePlot_loop k s = s"
  by (subst RemovePlot_loop.simps) simp

lemma RemovePlot_loop_stop:
  "map_of (plotData s) k = Some d \<Longrightarrow> \<not> 1 < length (variableCurves d) \<Longrightarrow>
   RemovePlot_loop k s = s"
  by (subst RemovePlot_loop.simps) simp

lemma RemovePlot_loop_step:
  "map_of (plotData s) k = Some d \<Longrightarrow> 1 < length (variableCurves d) \<Longrightarrow>
   RemovePlot_loop k s =
   RemovePlot_loop k (RemoveVariable_plot (fst (hd (variableCurves d))) k s)"
  by (subst RemovePlot_loop.simps) simp

text \<open>
  \<^verbatim>\<open>void PlotCanvas::RemovePlot(_id)\<close>. After the loop the record is still in the map
  with exactly one variable (lemma \<open>RemovePlot_loop_one\<close> below), so the two branches
  that return \<open>s1\<close> unchanged are never taken; in C++ they would be a dangling iterator
  and \<^verbatim>\<open>begin()\<close> of an empty map.
\<close>

definition RemovePlot :: "uint \<Rightarrow> PlotCanvas \<Rightarrow> PlotCanvas" where
  "RemovePlot i s =
     (case map_of (plotData s) i of
        None \<Rightarrow> s
      | Some d \<Rightarrow>
          (if variableCurves d = [] then
             s\<lparr>plotLayout := takeAt_indexOf (handle (plot d)) (plotLayout s),
               plotData := map_erase i (plotData s)\<rparr>
           else
             (let s1 = RemovePlot_loop i s
              in case map_of (plotData s1) i of
                   None \<Rightarrow> s1
                 | Some d1 \<Rightarrow>
                     (case variableCurves d1 of
                        [] \<Rightarrow> s1
                      | v # _ \<Rightarrow> RemoveVariable_plot (fst v) i s1))))"

lemma RemoveVariable_plot_others:
  "map_erase k (plotData (RemoveVariable_plot v k s)) = map_erase k (plotData s)"
  by (simp add: RemoveVariable_plot_def Let_def map_erase_idem map_erase_map_assign
      split: option.splits)

lemma RemoveVariable_plot_nonempty:
  assumes "\<And>d. map_of (plotData s) k = Some d \<Longrightarrow> variableCurves d \<noteq> []"
    and "map_of (plotData (RemoveVariable_plot v k s)) k = Some d'"
  shows "variableCurves d' \<noteq> []"
  using assms
  by (auto simp: RemoveVariable_plot_def Let_def map_of_map_erase map_of_map_assign
      split: option.splits if_splits)

lemma RemovePlot_loop_others:
  "map_erase k (plotData (RemovePlot_loop k s)) = map_erase k (plotData s)"
proof (induction k s rule: RemovePlot_loop.induct)
  case (1 plotId s)
  show ?case
  proof (cases "map_of (plotData s) plotId")
    case None
    then show ?thesis by (simp add: RemovePlot_loop_None)
  next
    case (Some d)
    show ?thesis
    proof (cases "1 < length (variableCurves d)")
      case True
      with 1 Some show ?thesis
        by (simp add: RemovePlot_loop_step RemoveVariable_plot_others)
    next
      case False
      with Some show ?thesis by (simp add: RemovePlot_loop_stop)
    qed
  qed
qed

lemma RemovePlot_loop_post:
  assumes "\<And>d. map_of (plotData s) k = Some d \<Longrightarrow> variableCurves d \<noteq> []"
    and "map_of (plotData (RemovePlot_loop k s)) k = Some d1"
  shows "\<exists>v. variableCurves d1 = [v]"
  using assms
proof (induction k s rule: RemovePlot_loop.induct)
  case (1 plotId s)
  from 1(3) obtain d where d: "map_of (plotData s) plotId = Some d"
    by (cases "map_of (plotData s) plotId") (auto simp: RemovePlot_loop_None)
  show ?case
  proof (cases "1 < length (variableCurves d)")
    case False
    with d 1(3) have "d1 = d" by (simp add: RemovePlot_loop_stop)
    moreover from 1(2) d have "variableCurves d \<noteq> []" by simp
    ultimately show ?thesis using False by (cases "variableCurves d") auto
  next
    case True
    let ?s' = "RemoveVariable_plot (fst (hd (variableCurves d))) plotId s"
    have "\<And>d'. map_of (plotData ?s') plotId = Some d' \<Longrightarrow> variableCurves d' \<noteq> []"
      using RemoveVariable_plot_nonempty [of s plotId] 1(2) by blast
    moreover have "map_of (plotData (RemovePlot_loop plotId ?s')) plotId = Some d1"
      using 1(3) d True by (simp add: RemovePlot_loop_step)
    ultimately show ?thesis using 1(1) [OF d True] by blast
  qed
qed

lemma RemoveVariable_plot_last:
  assumes "map_of (plotData s) k = Some d" and "variableCurves d = [v]"
  shows "plotData (RemoveVariable_plot (fst v) k s) = map_erase k (plotData s)"
  using assms by (simp add: RemoveVariable_plot_def Let_def map_erase_def)

text \<open>RemovePlot takes the record of the id out of the map and leaves every other record.\<close>

lemma plotData_RemovePlot: "plotData (RemovePlot k s) = map_erase k (plotData s)"
proof (cases "map_of (plotData s) k")
  case None
  then show ?thesis by (simp add: RemovePlot_def map_erase_absent)
next
  case (Some d)
  show ?thesis
  proof (cases "variableCurves d = []")
    case True
    with Some show ?thesis by (simp add: RemovePlot_def)
  next
    case False
    let ?s1 = "RemovePlot_loop k s"
    have others: "map_erase k (plotData ?s1) = map_erase k (plotData s)"
      by (rule RemovePlot_loop_others)
    show ?thesis
    proof (cases "map_of (plotData ?s1) k")
      case None
      with Some False others show ?thesis
        by (simp add: RemovePlot_def map_erase_absent)
    next
      case (Some d1)
      with RemovePlot_loop_post [of s k d1] \<open>map_of (plotData s) k = Some d\<close> False
      obtain v where v: "variableCurves d1 = [v]" by auto
      with Some RemoveVariable_plot_last [of ?s1 k d1 v] others
        \<open>map_of (plotData s) k = Some d\<close> False
      show ?thesis by (simp add: RemovePlot_def)
    qed
  qed
qed

text \<open>
  \<^verbatim>\<open>while (!plotData.empty()) { auto p = plotData.begin(); RemovePlot(p->first); }\<close>
\<close>

function Clear :: "PlotCanvas \<Rightarrow> PlotCanvas" where
  "Clear s = (if plotData s \<noteq> [] then Clear (RemovePlot (fst (hd (plotData s))) s) else s)"
  by pat_completeness auto
termination
  by (relation "measure (\<lambda>s. length (plotData s))")
    (simp_all add: plotData_RemovePlot length_map_erase_hd)

declare Clear.simps [simp del]

lemma Clear_Nil: "plotData s = [] \<Longrightarrow> Clear s = s"
  by (subst Clear.simps) simp

lemma Clear_step:
  "plotData s \<noteq> [] \<Longrightarrow> Clear s = Clear (RemovePlot (fst (hd (plotData s))) s)"
  by (subst Clear.simps) simp

text \<open>\<^verbatim>\<open>unsigned int PlotCanvas::PlotByVariable(_variableId) const\<close>\<close>

definition PlotByVariable :: "PlotCanvas \<Rightarrow> uint \<Rightarrow> uint" where
  "PlotByVariable s variableId =
     (case findVariable variableId (plotData s) of
        None \<Rightarrow> EMPTY_PLOT
      | Some (k, d, curveId) \<Rightarrow> k)"

text \<open>\<^verbatim>\<open>unsigned int PlotCanvas::PlotCount() const\<close>; the size is cut to 32 bits.\<close>

definition PlotCount :: "PlotCanvas \<Rightarrow> uint" where
  "PlotCount s = of_nat (length (plotData s)) + (if emptyPlot s then 1 else 0)"

subsection \<open>The handlers of the slot container's events\<close>

text \<open>\<^verbatim>\<open>void PlotCanvas::OnAddVariable(_id, _variable, _targetId)\<close>\<close>

definition OnAddVariable :: "uint \<Rightarrow> string \<Rightarrow> uint \<Rightarrow> PlotCanvas \<Rightarrow> PlotCanvas" where
  "OnAddVariable i variable targetId s =
     (if targetId \<noteq> EMPTY_VARIABLE then
        (case findVariable targetId (plotData s) of
           None \<Rightarrow> s
         | Some (k, d, curveId) \<Rightarrow> AddVariable i variable (idPlot d) s)
      else AddVariable i variable EMPTY_PLOT s)"

text \<open>\<^verbatim>\<open>void PlotCanvas::OnSetVariableLabel(_id, _label)\<close>\<close>

definition OnSetVariableLabel :: "uint \<Rightarrow> string \<Rightarrow> PlotCanvas \<Rightarrow> PlotCanvas" where
  "OnSetVariableLabel i label s =
     (case findVariable i (plotData s) of
        None \<Rightarrow> s
      | Some (k, d, curveId) \<Rightarrow>
          s\<lparr>plotData := map_assign k
               (d\<lparr>plot := IncrementalPlot_SetCurveLabel curveId label (plot d)\<rparr>) (plotData s)\<rparr>)"

text \<open>
  Modelled from the spec: the slot container's AddSlot(name, anchorId) and
  SetSlotLabel(id, label), whose code is not among the sources. AddSlot gives the slot
  the next id of the slot counter and raises the event that the constructor connects to
  \<open>OnAddVariable\<close> (spec 4.1); SetSlotLabel replaces the text of a slot that exists and
  raises the event connected to \<open>OnSetVariableLabel\<close>. RemoveSlot(id), used by
  RemoveVariable above, deletes the slot; the spec does not say that it raises an event
  when the canvas calls it, and here it raises none.
\<close>

definition VariablePillContainer_AddVariablePill ::
  "string \<Rightarrow> uint \<Rightarrow> PlotCanvas \<Rightarrow> uint \<times> PlotCanvas" where
  "VariablePillContainer_AddVariablePill name targetId s =
     (let i = globalVariableId s;
          s1 = s\<lparr>yVariableContainer :=
                   map_assign i \<lparr>Name = name, Text = name\<rparr> (yVariableContainer s),
                 globalVariableId := i + 1\<rparr>
      in (i, OnAddVariable i name targetId s1))"

definition VariablePillContainer_SetVariablePillLabel ::
  "uint \<Rightarrow> string \<Rightarrow> PlotCanvas \<Rightarrow> PlotCanvas" where
  "VariablePillContainer_SetVariablePillLabel i label s =
     (case map_of (yVariableContainer s) i of
        None \<Rightarrow> s
      | Some pill \<Rightarrow>
          OnSetVariableLabel i label
            (s\<lparr>yVariableContainer :=
                 map_assign i (pill\<lparr>Text := label\<rparr>) (yVariableContainer s)\<rparr>))"

text \<open>\<^verbatim>\<open>void PlotCanvas::SetVariableLabel(_id, _label)\<close>\<close>

definition SetVariableLabel :: "uint \<Rightarrow> string \<Rightarrow> PlotCanvas \<Rightarrow> PlotCanvas" where
  "SetVariableLabel i label s = VariablePillContainer_SetVariablePillLabel i label s"

text \<open>\<^verbatim>\<open>unsigned int PlotCanvas::AddVariable(_variable, _plotId)\<close>\<close>

definition AddVariable_name :: "string \<Rightarrow> uint \<Rightarrow> PlotCanvas \<Rightarrow> uint \<times> PlotCanvas" where
  "AddVariable_name variable plotId s =
     (let targetId =
        (if plotId \<noteq> EMPTY_PLOT then
           (case map_of (plotData s) plotId of
              None \<Rightarrow> EMPTY_VARIABLE
            | Some d \<Rightarrow>
                (case variableCurves d of
                   [] \<Rightarrow> EMPTY_VARIABLE
                 | v # _ \<Rightarrow> fst v))
         else EMPTY_VARIABLE)
      in VariablePillContainer_AddVariablePill variable targetId s)"

subsection \<open>OnMoveVariable\<close>

text \<open>
  The search loop. The iterators \<open>plotIt\<close> and \<open>targetPlotIt\<close> are the keys of the
  records they stand on, \<open>None\<close> for \<^verbatim>\<open>end()\<close>.
\<close>

fun OnMoveVariable_find ::
  "uint \<Rightarrow> uint \<Rightarrow> (uint \<times> PlotData) list \<Rightarrow> uint option \<times> uint option \<times> uint
   \<Rightarrow> uint option \<times> uint option \<times> uint" where
  "OnMoveVariable_find i targetId [] acc = acc"
| "OnMoveVariable_find i targetId ((k, d) # m) (plotIt, targetPlotIt, curveId) =
     (let (plotIt1, curveId1) =
            (case map_of (variableCurves d) i of
               None \<Rightarrow> (plotIt, curveId)
             | Some c \<Rightarrow> (Some k, c));
          targetPlotIt1 =
            (if map_of (variableCurves d) targetId \<noteq> None then Some k else targetPlotIt)
      in if plotIt1 \<noteq> None \<and> targetPlotIt1 \<noteq> None
         then (plotIt1, targetPlotIt1, curveId1)
         else OnMoveVariable_find i targetId m (plotIt1, targetPlotIt1, curveId1))"

text \<open>
  The last loop of OnMoveVariable erases the entry whose record \<^emph>\<open>is\<close> the source
  record (\<^verbatim>\<open>it->second == plotData\<close>), found by identity.
\<close>

fun erase_record :: "nat \<Rightarrow> (uint \<times> PlotData) list \<Rightarrow> (uint \<times> PlotData) list" where
  "erase_record h [] = []"
| "erase_record h ((k, d) # m) =
     (if handle (plot d) = h then m else (k, d) # erase_record h m)"

text \<open>
  \<^verbatim>\<open>void PlotCanvas::OnMoveVariable(_id, _targetId)\<close>. The result is \<open>None\<close> where
  the C++ dereferences a null pointer: \<^verbatim>\<open>plotCurve->Id()\<close> when the source plot does
  not hold the curve the mapping names, and the record read after a failed
  \<^verbatim>\<open>GZ_ASSERT\<close>. The pointer \<open>plotData\<close> to the source record is read again after
  the branch: when a target was found the map has the same keys as before and the source
  record is the one at its key (it is the target itself when both variables are in one
  plot); when a plot was added the source record is as the erase left it, \<open>d1\<close>.
\<close>

definition OnMoveVariable :: "uint \<Rightarrow> uint \<Rightarrow> PlotCanvas \<Rightarrow> PlotCanvas option" where
  "OnMoveVariable i targetId s =
     (case OnMoveVariable_find i targetId (plotData s) (None, None, 0) of
        (None, targetPlotIt, curveId) \<Rightarrow> Some s
      | (Some k, targetPlotIt, curveId) \<Rightarrow>
          (case map_of (plotData s) k of
             None \<Rightarrow> None
           | Some d \<Rightarrow>
               (case IncrementalPlot_DetachCurve curveId (plot d) of
                  (None, p) \<Rightarrow> None
                | (Some plotCurve, p) \<Rightarrow>
                    (let d1 = d\<lparr>plot := p, variableCurves := map_erase i (variableCurves d)\<rparr>;
                         s1 = s\<lparr>plotData := map_assign k d1 (plotData s)\<rparr>;
                         r = (case targetPlotIt of
                                Some tk \<Rightarrow>
                                  (case map_of (plotData s1) tk of
                                     None \<Rightarrow> None
                                   | Some td \<Rightarrow>
                                       (let td1 = td\<lparr>plot := IncrementalPlot_AttachCurve plotCurve (plot td),
                                                     variableCurves :=
                                                       map_assign i (cId plotCurve) (variableCurves td)\<rparr>;
                                            s2 = s1\<lparr>plotData := map_assign tk td1 (plotData s1)\<rparr>
                                        in Some (s2, (case map_of (plotData s2) k of
                                                        None \<Rightarrow> d1 | Some d2 \<Rightarrow> d2))))
                              | None \<Rightarrow>
                                  (let (plotId, sa) = AddPlot s1
                                   in case map_of (plotData sa) plotId of
                                        None \<Rightarrow> None
                                      | Some nd \<Rightarrow>
                                          (let nd1 = nd\<lparr>plot := IncrementalPlot_AttachCurve plotCurve (plot nd),
                                                        variableCurves :=
                                                          map_assign i (cId plotCurve) (variableCurves nd)\<rparr>;
                                               sb = sa\<lparr>plotData := map_assign plotId nd1 (plotData sa)\<rparr>
                                           in Some (hideEmptyPlot sb, d1))))
                     in case r of
                          None \<Rightarrow> None
                        | Some (s2, src) \<Rightarrow>
                            Some (if variableCurves src = [] then
                                    s2\<lparr>plotLayout := takeAt_indexOf (handle (plot src)) (plotLayout s2),
                                       plotData := erase_record (handle (plot src)) (plotData s2)\<rparr>
                                  else s2)))))"

subsection \<open>Restart\<close>

text \<open>
  The string functions Restart uses. \<^verbatim>\<open>varText.rfind("_")\<close> is the index of the last
  underscore, \<open>None\<close> for \<^verbatim>\<open>npos\<close>. \<^verbatim>\<open>ss << c->Age()\<close> writes the unsigned age in
  decimal.
\<close>

fun rfind :: "char \<Rightarrow> string \<Rightarrow> nat option" where
  "rfind c [] = None"
| "rfind c (x # xs) =
     (case rfind c xs of
        Some n \<Rightarrow> Some (Suc n)
      | None \<Rightarrow> if x = c then Some 0 else None)"

text \<open>
  \<^verbatim>\<open>int age = std::atoi(...)\<close>. The C library's atoi is \<^verbatim>\<open>(int) strtol(s, NULL, 10)\<close>:
  strtol skips white space (space, tab, line feed, vertical tab, form feed, carriage
  return), reads an optional sign and then decimal digits up to the first other
  character, and gives 0 when there is no digit. Its result is a \<^verbatim>\<open>long\<close>, of 64 bits
  on the platforms Gazebo builds for: a value beyond that range is \<^verbatim>\<open>LONG_MAX\<close> or
  \<^verbatim>\<open>LONG_MIN\<close>. The conversion to the 32-bit \<^verbatim>\<open>int\<close> keeps the low 32 bits, in two's
  complement, so that the text 2147483648 gives -2147483648. (The C standard leaves atoi
  of a value outside \<^verbatim>\<open>int\<close> undefined; this is what the library does.)
\<close>

definition isspace :: "char \<Rightarrow> bool" where
  "isspace c = (c \<in> set [CHR 0x20, CHR 0x09, CHR 0x0A, CHR 0x0B, CHR 0x0C, CHR 0x0D])"

definition isdigit :: "char \<Rightarrow> bool" where
  "isdigit c = (c \<in> set ''0123456789'')"

text \<open>
  The magnitude strtol accumulates over the digits. It stops growing at \<open>2 ^ 63\<close>, the
  magnitude of \<^verbatim>\<open>LONG_MIN\<close>: from there on the value is out of range whatever follows.
\<close>

fun strtol_digits :: "string \<Rightarrow> int \<Rightarrow> int" where
  "strtol_digits [] acc = acc"
| "strtol_digits (c # cs) acc =
     (if isdigit c
      then strtol_digits cs (min (10 * acc + (int (of_char c) - 48)) (2 ^ 63))
      else acc)"

definition strtol :: "string \<Rightarrow> int" where
  "strtol str =
     (case dropWhile isspace str of
        [] \<Rightarrow> 0
      | c # cs \<Rightarrow>
          if c = CHR ''-'' then - strtol_digits cs 0
          else if c = CHR ''+'' then min (strtol_digits cs 0) (2 ^ 63 - 1)
          else min (strtol_digits (c # cs) 0) (2 ^ 63 - 1))"

definition atoi :: "string \<Rightarrow> int" where
  "atoi str = sint (word_of_int (strtol str) :: 32 word)"

fun show_nat :: "nat \<Rightarrow> string" where
  "show_nat n =
     (if n < 10 then [char_of (48 + n)]
      else show_nat (n div 10) @ [char_of (48 + n mod 10)])"

definition show_uint :: "uint \<Rightarrow> string" where
  "show_uint w = show_nat (unat w)"

text \<open>
  The body of the inner loop of Restart, for the variable \<open>variableId\<close> with curve
  \<open>curveId\<close> in the record of key \<open>k\<close>. The list of variables to clone holds the text
  of the slot, the slot, and the plot id; of the slot the second loop reads the name
  only, which never changes.
\<close>

definition Restart_curve ::
  "uint \<Rightarrow> uint \<Rightarrow> uint \<Rightarrow> PlotCanvas \<times> (string \<times> VariablePill \<times> uint) list
   \<Rightarrow> PlotCanvas \<times> (string \<times> VariablePill \<times> uint) list" where
  "Restart_curve k variableId curveId acc =
     (case acc of (s, variableCurvesToClone) \<Rightarrow>
        (case map_of (yVariableContainer s) variableId of
           None \<Rightarrow> acc
         | Some variablePill \<Rightarrow>
             (case map_of (plotData s) k of
                None \<Rightarrow> acc
              | Some d \<Rightarrow>
                  (case IncrementalPlot_Curve (plot d) curveId of
                     None \<Rightarrow> acc
                   | Some c \<Rightarrow>
                       (let (c1, reg, toClone) =
                              (if cActive c then
                                 (c\<lparr>cActive := False\<rparr>,
                                  PlotManager_RemoveCurve (Some c) (plotManager s),
                                  variableCurvesToClone @ [(Text variablePill, variablePill, k)])
                               else (c, plotManager s, variableCurvesToClone));
                            c2 = c1\<lparr>cAge := cAge c1 + 1\<rparr>;
                            d2 = d\<lparr>plot := (plot d)\<lparr>curves := map_assign curveId c2 (curves (plot d))\<rparr>\<rparr>;
                            s2 = s\<lparr>plotManager := reg, plotData := map_assign k d2 (plotData s)\<rparr>;
                            varText = Text variablePill
                        in if cAge c2 = 1 then
                             (SetVariableLabel variableId (varText @ ''_1'') s2, toClone)
                           else
                             (case rfind (CHR ''_'') varText of
                                None \<Rightarrow> (s2, toClone)
                              | Some idx \<Rightarrow>
                                  if 0 < atoi (drop (idx + 1) varText) then
                                    (SetVariableLabel variableId
                                       (take (idx + 1) varText @ show_uint (cAge c2)) s2, toClone)
                                  else (s2, toClone)))))))"

text \<open>
  The first loop walks every record and every entry of its mapping. Its body changes
  curves, labels and the registry but neither the keys of \<open>plotData\<close> nor any mapping,
  so the walk is over the entries as they are when Restart starts.
\<close>

definition Restart_entries :: "PlotCanvas \<Rightarrow> (uint \<times> uint \<times> uint) list" where
  "Restart_entries s =
     concat (map (\<lambda>(k, d). map (\<lambda>(v, c). (k, v, c)) (variableCurves d)) (plotData s))"

text \<open>The body of the second loop: the clone, which takes the text the slot had.\<close>

definition Restart_clone :: "PlotCanvas \<Rightarrow> string \<times> VariablePill \<times> uint \<Rightarrow> PlotCanvas" where
  "Restart_clone s v =
     (case v of (varText, varPill, plotId) \<Rightarrow>
        (let (i, s1) = AddVariable_name (Name varPill) plotId s
         in if varText \<noteq> Name varPill then SetVariableLabel i varText s1 else s1))"

definition Restart :: "PlotCanvas \<Rightarrow> PlotCanvas" where
  "Restart s =
     (let (s1, variableCurvesToClone) =
            foldl (\<lambda>acc (k, v, c). Restart_curve k v c acc) (s, []) (Restart_entries s)
      in foldl Restart_clone s1 variableCurvesToClone)"

subsection \<open>Clear and PlotCount\<close>

lemma plotData_Clear: "plotData (Clear s) = []"
proof (induction s rule: Clear.induct)
  case (1 s)
  then show ?case
    by (cases "plotData s = []") (simp_all add: Clear_Nil Clear_step)
qed

text \<open>The removal operations never hide the placeholder.\<close>

lemma emptyPlot_RemoveVariable_plot:
  "emptyPlot s \<Longrightarrow> emptyPlot (RemoveVariable_plot i k s)"
  by (simp add: RemoveVariable_plot_def Let_def split: option.splits)

lemma emptyPlot_RemovePlot_loop: "emptyPlot s \<Longrightarrow> emptyPlot (RemovePlot_loop k s)"
proof (induction k s rule: RemovePlot_loop.induct)
  case (1 plotId s)
  then show ?case
    by (cases "map_of (plotData s) plotId"; cases "1 < length (variableCurves (the (map_of (plotData s) plotId)))")
      (simp_all add: emptyPlot_RemoveVariable_plot RemovePlot_loop_None RemovePlot_loop_stop RemovePlot_loop_step)
qed

lemma emptyPlot_RemovePlot: "emptyPlot s \<Longrightarrow> emptyPlot (RemovePlot k s)"
  by (simp add: RemovePlot_def Let_def emptyPlot_RemovePlot_loop emptyPlot_RemoveVariable_plot
      split: option.splits list.splits)

text \<open>
  \<open>shown s\<close>: the placeholder is visible if no record is left. The specified-plot
  RemoveVariable keeps it, and so RemovePlot establishes it for a record with a variable.
\<close>

definition shown :: "PlotCanvas \<Rightarrow> bool" where
  "shown s = (plotData s = [] \<longrightarrow> emptyPlot s)"

lemma shown_RemoveVariable_plot: "shown s \<Longrightarrow> shown (RemoveVariable_plot i k s)"
  by (auto simp: shown_def RemoveVariable_plot_def Let_def split: option.splits)

lemma shown_RemovePlot_loop: "shown s \<Longrightarrow> shown (RemovePlot_loop k s)"
proof (induction k s rule: RemovePlot_loop.induct)
  case (1 plotId s)
  then show ?case
    by (cases "map_of (plotData s) plotId"; cases "1 < length (variableCurves (the (map_of (plotData s) plotId)))")
      (simp_all add: shown_RemoveVariable_plot RemovePlot_loop_None RemovePlot_loop_stop RemovePlot_loop_step)
qed

lemma shown_RemovePlot:
  assumes "map_of (plotData s) k = Some d" and "variableCurves d \<noteq> []"
  shows "shown (RemovePlot k s)"
proof -
  from assms(1) have "plotData s \<noteq> []" by auto
  then have "shown s" by (simp add: shown_def)
  then have "shown (RemovePlot_loop k s)" by (rule shown_RemovePlot_loop)
  with assms show ?thesis
    by (simp add: RemovePlot_def Let_def shown_RemoveVariable_plot split: option.splits list.splits)
qed

definition has_variables :: "(uint \<times> PlotData) list \<Rightarrow> bool" where
  "has_variables m = (\<forall>kd \<in> set m. variableCurves (snd kd) \<noteq> [])"

lemma has_variables_map_erase: "has_variables m \<Longrightarrow> has_variables (map_erase k m)"
  by (auto simp: has_variables_def map_erase_def)

lemma emptyPlot_Clear:
  "emptyPlot s \<or> (plotData s \<noteq> [] \<and> has_variables (plotData s)) \<Longrightarrow> emptyPlot (Clear s)"
proof (induction s rule: Clear.induct)
  case (1 s)
  show ?case
  proof (cases "plotData s = []")
    case True
    with 1(2) show ?thesis by (simp add: Clear_Nil)
  next
    case False
    let ?k = "fst (hd (plotData s))"
    let ?s' = "RemovePlot ?k s"
    have "emptyPlot ?s' \<or> (plotData ?s' \<noteq> [] \<and> has_variables (plotData ?s'))"
    proof (cases "emptyPlot s")
      case True
      then show ?thesis by (simp add: emptyPlot_RemovePlot)
    next
      case False
      with 1(2) have hv: "has_variables (plotData s)" by simp
      from \<open>plotData s \<noteq> []\<close> have found: "map_of (plotData s) ?k = Some (snd (hd (plotData s)))"
        by (rule map_of_hd)
      from \<open>plotData s \<noteq> []\<close> hv have "variableCurves (snd (hd (plotData s))) \<noteq> []"
        by (cases "plotData s") (auto simp: has_variables_def)
      with found have "shown ?s'" by (rule shown_RemovePlot)
      moreover from hv have "has_variables (plotData ?s')"
        by (simp add: plotData_RemovePlot has_variables_map_erase)
      ultimately show ?thesis by (auto simp: shown_def)
    qed
    with 1(1) [OF False] have "emptyPlot (Clear ?s')" by blast
    with False show ?thesis by (simp add: Clear_step)
  qed
qed

definition canvas3 :: PlotCanvas where
  "canvas3 =
     AddVariable 3 ''c'' EMPTY_PLOT
       (AddVariable 2 ''b'' EMPTY_PLOT (AddVariable 1 ''a'' EMPTY_PLOT PlotCanvas_new))"


text \<open>
  C5, as the code has it: after Clear no plot record remains, and PlotCount is 1 when
  the placeholder is visible and 0 when it is hidden. It is 1 whenever the placeholder
  was visible before Clear, or the canvas had records and each of them a variable (the
  last RemoveVariable then shows the placeholder).
\<close>

theorem C5_Clear:
  "plotData (Clear s) = [] \<and>
   PlotCount (Clear s) = (if emptyPlot (Clear s) then 1 else 0) \<and>
   (emptyPlot s \<or> (plotData s \<noteq> [] \<and> has_variables (plotData s)) \<longrightarrow> PlotCount (Clear s) = 1)"
  using emptyPlot_Clear [of s] by (auto simp: PlotCount_def plotData_Clear)

theorem C5_Clear_witness:
  "length (plotData canvas3) = 3 \<and> has_variables (plotData canvas3) \<and>
   plotData (Clear canvas3) = [] \<and> PlotCount (Clear canvas3) = 1"
proof -
  have h: "length (plotData canvas3) = 3 \<and> has_variables (plotData canvas3)"
    by code_simp
  then have "plotData canvas3 \<noteq> []" by auto
  with h C5_Clear [of canvas3] show ?thesis by blast
qed

text \<open>
  The claim as stated asks for PlotCount 0: on the canvas with three plots of one
  variable each it is 1, since PlotCount counts the visible placeholder.
\<close>

theorem C5_counterexample:
  "\<not> (plotData (Clear canvas3) = [] \<and> PlotCount (Clear canvas3) = 0)"
  by code_simp

subsection \<open>RemoveVariable: the scan and the specified plot\<close>

lemma map_sorted_distinct: "map_sorted m \<Longrightarrow> distinct (map fst m)"
  by (simp add: map_sorted_def strict_sorted_iff)

lemma map_sorted_map_of: "map_sorted m \<Longrightarrow> (k, v) \<in> set m \<Longrightarrow> map_of m k = Some v"
  by (simp add: map_sorted_distinct)

lemma findVariable_Some:
  "findVariable i m = Some (k, d, c) \<Longrightarrow> (k, d) \<in> set m \<and> map_of (variableCurves d) i = Some c"
  by (induction m) (auto split: option.splits)

lemma findVariable_None:
  "findVariable i m = None \<Longrightarrow> (k, d) \<in> set m \<Longrightarrow> map_of (variableCurves d) i = None"
  by (induction m) (auto split: option.splits)

text \<open>The canvas with one plot of two variables, added through the slot container.\<close>

definition canvas_x :: PlotCanvas where
  "canvas_x = snd (AddVariable_name ''x'' EMPTY_PLOT PlotCanvas_new)"

definition canvas_xy :: PlotCanvas where
  "canvas_xy =
     snd (AddVariable_name ''y'' 0 canvas_x)"

text \<open>
  C6, as the code has it: when the scan finds variableId in the record of key k, both
  overloads leave the same plot records, layout, placeholder and counters; the
  specified-plot overload always asks the registry to remove the curve and always
  removes the slot, the scan overload only when the record is left without a variable.
  So the two results are the same state when variableId is the only variable of the
  record, and differ in the registry and the slot container otherwise.
\<close>

theorem C6_RemoveVariable_overloads:
  assumes "map_sorted (plotData s)" and "findVariable i (plotData s) = Some (k, d, c)"
  shows "RemoveVariable_plot i k s =
           (RemoveVariable i s)
             \<lparr>yVariableContainer := map_erase i (yVariableContainer s),
              plotManager := PlotManager_RemoveCurve (IncrementalPlot_Curve (plot d) i) (plotManager s)\<rparr>
         \<and> (if map_erase i (variableCurves d) = []
            then RemoveVariable i s = RemoveVariable_plot i k s
            else yVariableContainer (RemoveVariable i s) = yVariableContainer s \<and>
                 plotManager (RemoveVariable i s) = plotManager s)"
proof -
  from assms(2) have "(k, d) \<in> set (plotData s)" and c: "map_of (variableCurves d) i = Some c"
    using findVariable_Some by blast+
  with assms(1) have d: "map_of (plotData s) k = Some d"
    by (simp add: map_sorted_map_of)
  show ?thesis
    using assms(2) c d
    by (simp add: RemoveVariable_def RemoveVariable_plot_def Let_def showEmptyPlot_def)
qed

theorem C6_RemoveVariable_overloads_witness:
  "map_sorted (plotData canvas_x) \<and>
   findVariable 0 (plotData canvas_x) = Some (0, snd (hd (plotData canvas_x)), 0) \<and>
   RemoveVariable 0 canvas_x = RemoveVariable_plot 0 0 canvas_x"
proof -
  have h1: "map_sorted (plotData canvas_x)"
    by code_simp
  have h2: "findVariable 0 (plotData canvas_x) = Some (0, snd (hd (plotData canvas_x)), 0)"
    by code_simp
  have h3: "map_erase 0 (variableCurves (snd (hd (plotData canvas_x)))) = []"
    by code_simp
  from C6_RemoveVariable_overloads [OF h1 h2]
  have "if map_erase 0 (variableCurves (snd (hd (plotData canvas_x)))) = []
        then RemoveVariable 0 canvas_x = RemoveVariable_plot 0 0 canvas_x
        else yVariableContainer (RemoveVariable 0 canvas_x) = yVariableContainer canvas_x \<and>
             plotManager (RemoveVariable 0 canvas_x) = plotManager canvas_x"
    by (rule conjunct2)
  with h3 have "RemoveVariable 0 canvas_x = RemoveVariable_plot 0 0 canvas_x"
    by (simp only: if_True)
  with h1 h2 show ?thesis by blast
qed

text \<open>
  The claim as stated fails on the plot with the two variables 0 and 1: the scan overload
  leaves the slot of variable 0 in the container, the specified-plot overload removes it.
\<close>

theorem C6_counterexample:
  "PlotByVariable canvas_xy 0 = 0 \<and>
   RemoveVariable 0 canvas_xy \<noteq> RemoveVariable_plot 0 0 canvas_xy"
proof -
  have "yVariableContainer (RemoveVariable 0 canvas_xy) \<noteq>
        yVariableContainer (RemoveVariable_plot 0 0 canvas_xy)"
    by code_simp
  then have "RemoveVariable 0 canvas_xy \<noteq> RemoveVariable_plot 0 0 canvas_xy"
    by auto
  moreover have "PlotByVariable canvas_xy 0 = 0"
    by code_simp
  ultimately show ?thesis by blast
qed


subsection \<open>RemoveVariable of the only variable of a plot\<close>

text \<open>
  The canvas of the spec's example: the caller adds variable 7, named x, to a new plot.
  The plot is plot 0 and the curve is the first curve, curve 0.
\<close>

definition canvas_x7 :: PlotCanvas where
  "canvas_x7 = AddVariable 7 ''x'' EMPTY_PLOT PlotCanvas_new"

text \<open>
  C4: variable 7 is the only variable of plot 0. RemoveVariable(7) removes the slot,
  takes the plot out of the layout and destroys the record, but the curve of the
  variable, curve 0, stays in the registry: the registry is asked to remove
  \<^verbatim>\<open>plot->Curve(_id)\<close>, the curve whose curve id is the variable id 7, and the plot
  holds no such curve. The other lookups of the file pass the curve id
  (\<^verbatim>\<open>plot->Curve(curveId)\<close> in Restart, \<^verbatim>\<open>plot->Curve(v->second)\<close> in PlotCurve).
\<close>

theorem C4_RemoveVariable_registry:
  "findVariable 7 (plotData canvas_x7) =
     Some (0, \<lparr>idPlot = 0,
                plot = \<lparr>handle = 1,
                         curves = [(0, \<lparr>cId = 0, cLabel = ''x'', cActive = True, cAge = 0\<rparr>)]\<rparr>,
                variableCurves = [(7, 0)]\<rparr>, 0) \<and>
   plotManager canvas_x7 = [(''x'', 0)] \<and>
   plotData (RemoveVariable 7 canvas_x7) = [] \<and>
   plotLayout (RemoveVariable 7 canvas_x7) = [0] \<and>
   map_of (yVariableContainer (RemoveVariable 7 canvas_x7)) 7 = None \<and>
   plotManager (RemoveVariable 7 canvas_x7) = [(''x'', 0)]"
  by code_simp

subsection \<open>Removing what is not there\<close>

lemma RemoveVariable_absent:
  "findVariable i (plotData s) = None \<Longrightarrow> RemoveVariable i s = showEmptyPlot s"
  by (simp add: RemoveVariable_def)

lemma showEmptyPlot_id: "emptyPlot s \<or> plotData s \<noteq> [] \<Longrightarrow> showEmptyPlot s = s"
  by (auto simp: showEmptyPlot_def)

lemma showEmptyPlot_idem: "showEmptyPlot (showEmptyPlot s) = showEmptyPlot s"
  by (simp add: showEmptyPlot_def)

lemma RemoveVariable_shown: "emptyPlot (RemoveVariable i s) \<or> plotData (RemoveVariable i s) \<noteq> []"
  by (auto simp: RemoveVariable_def Let_def)

lemma RemoveVariable_plot_idem:
  "RemoveVariable_plot i k (RemoveVariable_plot i k s) = RemoveVariable_plot i k s"
proof (cases "map_of (plotData s) k")
  case None
  then show ?thesis by (simp add: RemoveVariable_plot_def)
next
  case (Some d)
  show ?thesis
  proof (cases "map_of (variableCurves d) i")
    case None
    with Some show ?thesis by (simp add: RemoveVariable_plot_def)
  next
    case (Some c)
    let ?s' = "RemoveVariable_plot i k s"
    have "map_of (plotData ?s') k = None \<or>
          (\<exists>d'. map_of (plotData ?s') k = Some d' \<and> map_of (variableCurves d') i = None)"
      using Some \<open>map_of (plotData s) k = Some d\<close>
      by (simp add: RemoveVariable_plot_def Let_def map_of_map_erase map_of_map_assign)
    then show ?thesis
      by (subst RemoveVariable_plot_def) auto
  qed
qed

lemma RemovePlot_idem: "RemovePlot k (RemovePlot k s) = RemovePlot k s"
proof -
  have "map_of (plotData (RemovePlot k s)) k = None"
    by (simp add: plotData_RemovePlot map_of_map_erase)
  then show ?thesis by (subst RemovePlot_def) simp
qed

text \<open>
  The canvas left by AddVariable(1, x), AddPlot(), RemoveVariable(1), RemovePlot(1): it
  has no record, and its placeholder is hidden, since RemovePlot deletes a plot without
  variables and returns at once.
\<close>

definition canvas_hidden :: PlotCanvas where
  "canvas_hidden =
     RemovePlot 1 (RemoveVariable 1 (snd (AddPlot (AddVariable 1 ''x'' EMPTY_PLOT PlotCanvas_new))))"

text \<open>
  C9, as the code has it: when variableId is in no record, RemoveVariable(variableId)
  changes nothing but the placeholder, which it shows when there is no record; so it
  leaves the state unchanged whenever the placeholder is visible or a record exists.
  A second RemoveVariable of an id the first one removed, a second specified-plot
  RemoveVariable and a second RemovePlot have no further effect.
\<close>

theorem C9_remove_absent:
  "(findVariable i (plotData s) = None \<longrightarrow>
      RemoveVariable i s = s\<lparr>emptyPlot := emptyPlot s \<or> plotData s = []\<rparr> \<and>
      (emptyPlot s \<or> plotData s \<noteq> [] \<longrightarrow> RemoveVariable i s = s)) \<and>
   (findVariable i (plotData (RemoveVariable i s)) = None \<longrightarrow>
      RemoveVariable i (RemoveVariable i s) = RemoveVariable i s) \<and>
   RemoveVariable_plot i k (RemoveVariable_plot i k s) = RemoveVariable_plot i k s \<and>
   RemovePlot k (RemovePlot k s) = RemovePlot k s"
proof -
  have "RemoveVariable i (RemoveVariable i s) = RemoveVariable i s"
    if "findVariable i (plotData (RemoveVariable i s)) = None"
    using that RemoveVariable_shown [of i s]
    by (simp add: RemoveVariable_absent showEmptyPlot_id)
  moreover have "RemoveVariable i s = s\<lparr>emptyPlot := emptyPlot s \<or> plotData s = []\<rparr>"
    if "findVariable i (plotData s) = None"
    using that by (auto simp: RemoveVariable_absent showEmptyPlot_def)
  moreover have "RemoveVariable i s = s"
    if "findVariable i (plotData s) = None" "emptyPlot s \<or> plotData s \<noteq> []"
    using that by (simp add: RemoveVariable_absent showEmptyPlot_id)
  ultimately show ?thesis
    by (simp add: RemoveVariable_plot_idem RemovePlot_idem)
qed

theorem C9_remove_absent_witness:
  "findVariable 1 (plotData canvas_x) = None \<and> \<not> emptyPlot canvas_x \<and> plotData canvas_x \<noteq> [] \<and>
   RemoveVariable 1 canvas_x = canvas_x \<and>
   findVariable 0 (plotData (RemoveVariable 0 canvas_xy)) = None \<and>
   RemoveVariable 0 (RemoveVariable 0 canvas_xy) = RemoveVariable 0 canvas_xy"
proof -
  have h1: "findVariable 1 (plotData canvas_x) = None"
    by code_simp
  have h2: "\<not> emptyPlot canvas_x \<and> plotData canvas_x \<noteq> []"
    by code_simp
  have h3: "findVariable 0 (plotData (RemoveVariable 0 canvas_xy)) = None"
    by code_simp
  from C9_remove_absent [of 1 canvas_x] h1 h2 have "RemoveVariable 1 canvas_x = canvas_x"
    by blast
  moreover from C9_remove_absent [of 0 canvas_xy] h3
  have "RemoveVariable 0 (RemoveVariable 0 canvas_xy) = RemoveVariable 0 canvas_xy"
    by blast
  ultimately show ?thesis using h1 h2 h3 by blast
qed

text \<open>
  The claim as stated fails on the canvas without records whose placeholder is hidden:
  variable 7 is in no record, and RemoveVariable(7) shows the placeholder.
\<close>

theorem C9_counterexample:
  "findVariable 7 (plotData canvas_hidden) = None \<and>
   RemoveVariable 7 canvas_hidden \<noteq> canvas_hidden"
proof -
  have "emptyPlot (RemoveVariable 7 canvas_hidden) \<noteq> emptyPlot canvas_hidden"
    by code_simp
  then have "RemoveVariable 7 canvas_hidden \<noteq> canvas_hidden"
    by auto
  moreover have "findVariable 7 (plotData canvas_hidden) = None"
    by code_simp
  ultimately show ?thesis by blast
qed

subsection \<open>Well-formed canvases\<close>

text \<open>
  What C++ guarantees of the objects the model stands for: the keys of a \<^verbatim>\<open>std::map\<close>
  ascend strictly; distinct plot objects have distinct addresses, all below the next
  address handed out. \<open>records_ok\<close> says so for the map of plot records.
\<close>

definition handles :: "(uint \<times> PlotData) list \<Rightarrow> nat list" where
  "handles m = map (\<lambda>kd. handle (plot (snd kd))) m"

definition records_ok :: "PlotCanvas \<Rightarrow> bool" where
  "records_ok s =
     (map_sorted (plotData s) \<and> distinct (handles (plotData s)) \<and>
      list_all (\<lambda>h. h < nextHandle s) (handles (plotData s)))"

lemma map_sorted_Cons:
  "map_sorted ((k, v) # m) = ((\<forall>kd \<in> set m. k < fst kd) \<and> map_sorted m)"
  by (auto simp: map_sorted_def)

lemma map_sorted_less_absent:
  "map_sorted m \<Longrightarrow> \<forall>kd \<in> set m. k < fst kd \<Longrightarrow> map_of m k = None"
  by (induction m) (auto simp: map_sorted_Cons)

lemma map_sorted_map_erase: "map_sorted m \<Longrightarrow> map_sorted (map_erase k m)"
  by (induction m) (auto simp: map_erase_def map_sorted_Cons)

lemma map_sorted_map_assign: "map_sorted m \<Longrightarrow> map_sorted (map_assign k v m)"
proof (induction m)
  case Nil
  then show ?case by (simp add: map_sorted_def)
next
  case (Cons a m)
  obtain k' v' where a: "a = (k', v')" by (cases a)
  from Cons.prems a have tl: "map_sorted m" and hd: "\<forall>kd \<in> set m. k' < fst kd"
    by (simp_all add: map_sorted_Cons)
  have "\<forall>kd \<in> set (map_assign k v m). k' < fst kd" if "k' < k"
    using that hd set_map_assign [of k v m] by auto
  with Cons.IH [OF tl] hd tl a show ?case
    by (auto simp: map_sorted_Cons)
qed

lemma map_assign_same:
  "map_sorted m \<Longrightarrow> map_of m k = Some v \<Longrightarrow> map_assign k v m = m"
proof (induction m)
  case Nil
  then show ?case by simp
next
  case (Cons a m)
  obtain k' v' where a: "a = (k', v')" by (cases a)
  show ?case
  proof (cases "k = k'")
    case True
    with Cons.prems a show ?thesis by simp
  next
    case False
    with Cons.prems a have in_tl: "map_of m k = Some v" by simp
    then have "(k, v) \<in> set m" by (rule map_of_SomeD)
    with Cons.prems(1) a have "k' < k" by (auto simp: map_sorted_Cons)
    moreover from Cons.prems(1) a have "map_sorted m" by (simp add: map_sorted_Cons)
    ultimately show ?thesis using Cons.IH in_tl a False by simp
  qed
qed

lemma map_assign_twice: "map_assign k v (map_assign k v' m) = map_assign k v m"
  by (induction m) auto

lemma map_assign_erase:
  "map_sorted m \<Longrightarrow> map_of m k = Some v \<Longrightarrow> map_assign k v (map_erase k m) = m"
proof (induction m)
  case Nil
  then show ?case by simp
next
  case (Cons a m)
  obtain k' v' where a: "a = (k', v')" by (cases a)
  from Cons.prems(1) a have tl: "map_sorted m" and hd: "\<forall>kd \<in> set m. k' < fst kd"
    by (simp_all add: map_sorted_Cons)
  show ?case
  proof (cases "k = k'")
    case True
    from hd tl have "map_of m k' = None" by (simp add: map_sorted_less_absent)
    then have "map_erase k' m = m" by (rule map_erase_absent)
    moreover have "map_assign k' v m = (k', v) # m"
      using hd by (cases m) auto
    ultimately show ?thesis using True Cons.prems(2) a by (simp add: map_erase_def)
  next
    case False
    with Cons.prems a have in_tl: "map_of m k = Some v" by simp
    then have "(k, v) \<in> set m" by (rule map_of_SomeD)
    with hd have "k' < k" by auto
    with Cons.IH [OF tl in_tl] a False show ?thesis by (simp add: map_erase_def)
  qed
qed

lemma handles_map_assign_same:
  assumes "map_sorted m" and "map_of m k = Some d" and "handle (plot d') = handle (plot d)"
  shows "handles (map_assign k d' m) = handles m"
  using assms
proof (induction m)
  case Nil
  then show ?case by simp
next
  case (Cons a m)
  obtain k' v' where a: "a = (k', v')" by (cases a)
  from Cons.prems(1) a have tl: "map_sorted m" and hd: "\<forall>kd \<in> set m. k' < fst kd"
    by (simp_all add: map_sorted_Cons)
  show ?case
  proof (cases "k = k'")
    case True
    with Cons.prems a show ?thesis by (simp add: handles_def)
  next
    case False
    with Cons.prems a have in_tl: "map_of m k = Some d" by simp
    then have "(k, d) \<in> set m" by (rule map_of_SomeD)
    with hd have "k' < k" by auto
    with Cons.IH [OF tl in_tl Cons.prems(3)] a False show ?thesis by (simp add: handles_def)
  qed
qed

lemma set_handles_map_assign:
  "set (handles (map_assign k d m)) \<subseteq> insert (handle (plot d)) (set (handles m))"
  using set_map_assign [of k d m] by (auto simp: handles_def)

lemma distinct_handles_map_assign_new:
  "distinct (handles m) \<Longrightarrow> handle (plot d) \<notin> set (handles m) \<Longrightarrow>
   distinct (handles (map_assign k d m))"
proof (induction m)
  case Nil
  then show ?case by (simp add: handles_def)
next
  case (Cons a m)
  obtain k' v' where a: "a = (k', v')" by (cases a)
  from Cons.prems a have "handle (plot v') \<notin> set (handles (map_assign k d m))"
    using set_handles_map_assign [of k d m] by (auto simp: handles_def)
  with Cons a show ?case by (auto simp: handles_def)
qed

lemma handles_map_erase: "set (handles (map_erase k m)) \<subseteq> set (handles m)"
  by (auto simp: handles_def map_erase_def)

lemma distinct_handles_map_erase: "distinct (handles m) \<Longrightarrow> distinct (handles (map_erase k m))"
  by (simp add: handles_def map_erase_def distinct_map_filter)

lemma set_erase_record: "set (erase_record h m) \<subseteq> set m"
  by (induction m) (auto split: if_splits)

lemma map_sorted_erase_record: "map_sorted m \<Longrightarrow> map_sorted (erase_record h m)"
proof (induction m)
  case Nil
  then show ?case by simp
next
  case (Cons a m)
  obtain k' v' where a: "a = (k', v')" by (cases a)
  with Cons set_erase_record [of h m] show ?case
    by (auto simp: map_sorted_Cons)
qed

lemma distinct_handles_erase_record:
  "distinct (handles m) \<Longrightarrow> distinct (handles (erase_record h m))"
proof (induction m)
  case Nil
  then show ?case by simp
next
  case (Cons a m)
  obtain k' v' where a: "a = (k', v')" by (cases a)
  with Cons set_erase_record [of h m] show ?case
    by (auto simp: handles_def)
qed

text \<open>With distinct handles, erasing by identity erases the entry of the record's key.\<close>

lemma erase_record_key:
  assumes "map_sorted m" and "distinct (handles m)" and "map_of m k = Some d"
  shows "erase_record (handle (plot d)) m = map_erase k m"
  using assms
proof (induction m)
  case Nil
  then show ?case by simp
next
  case (Cons a m)
  obtain k' v' where a: "a = (k', v')" by (cases a)
  from Cons.prems(1) a have tl: "map_sorted m" and hd: "\<forall>kd \<in> set m. k' < fst kd"
    by (simp_all add: map_sorted_Cons)
  show ?case
  proof (cases "k = k'")
    case True
    from hd tl have "map_of m k' = None" by (simp add: map_sorted_less_absent)
    then have "map_erase k' m = m" by (rule map_erase_absent)
    with True Cons.prems(3) a show ?thesis by (simp add: map_erase_def)
  next
    case False
    with Cons.prems a have in_tl: "map_of m k = Some d" by simp
    then have "(k, d) \<in> set m" by (rule map_of_SomeD)
    then have "handle (plot d) \<in> set (handles m)" by (force simp: handles_def)
    moreover from Cons.prems(2) a have "handle (plot v') \<notin> set (handles m)"
      by (simp add: handles_def)
    ultimately have "handle (plot v') \<noteq> handle (plot d)" by metis
    moreover from Cons.prems(2) a have "distinct (handles m)" by (simp add: handles_def)
    ultimately show ?thesis using Cons.IH [OF tl _ in_tl] a False by (simp add: map_erase_def)
  qed
qed

lemma erase_record_absent: "h \<notin> set (handles m) \<Longrightarrow> erase_record h m = m"
  by (induction m) (auto simp: handles_def)

lemma records_ok_assign_same:
  assumes "records_ok s" and "map_of (plotData s) k = Some d"
    and "handle (plot d') = handle (plot d)"
    and "plotData s' = map_assign k d' (plotData s)" and "nextHandle s' = nextHandle s"
  shows "records_ok s'"
  using assms
  by (simp add: records_ok_def map_sorted_map_assign handles_map_assign_same)

lemma records_ok_assign_new:
  assumes "records_ok s" and "handle (plot d') = nextHandle s"
    and "plotData s' = map_assign k d' (plotData s)" and "nextHandle s' = Suc (nextHandle s)"
  shows "records_ok s'"
proof -
  from assms(1) have lt: "\<forall>h \<in> set (handles (plotData s)). h < nextHandle s"
    by (simp add: records_ok_def list_all_iff)
  with assms(2) have fresh: "handle (plot d') \<notin> set (handles (plotData s))" by auto
  have "\<forall>h \<in> set (handles (map_assign k d' (plotData s))). h < Suc (nextHandle s)"
    using lt assms(2) set_handles_map_assign [of k d' "plotData s"] by fastforce
  with assms fresh show ?thesis
    by (simp add: records_ok_def map_sorted_map_assign distinct_handles_map_assign_new list_all_iff)
qed

lemma records_ok_erase:
  assumes "records_ok s" and "plotData s' = map_erase k (plotData s)"
    and "nextHandle s' = nextHandle s"
  shows "records_ok s'"
  using assms handles_map_erase [of k "plotData s"]
  by (auto simp: records_ok_def map_sorted_map_erase distinct_handles_map_erase list_all_iff)

lemma records_ok_erase_record:
  assumes "records_ok s" and "plotData s' = erase_record h (plotData s)"
    and "nextHandle s' = nextHandle s"
  shows "records_ok s'"
proof -
  have "set (handles (erase_record h (plotData s))) \<subseteq> set (handles (plotData s))"
    using set_erase_record [of h "plotData s"] by (auto simp: handles_def)
  with assms show ?thesis
    by (auto simp: records_ok_def map_sorted_erase_record distinct_handles_erase_record list_all_iff)
qed

lemma records_ok_same:
  "records_ok s \<Longrightarrow> plotData s' = plotData s \<Longrightarrow> nextHandle s' = nextHandle s \<Longrightarrow> records_ok s'"
  by (simp add: records_ok_def)

lemma has_variables_map_assign:
  "has_variables m \<Longrightarrow> variableCurves d \<noteq> [] \<Longrightarrow> has_variables (map_assign k d m)"
  using set_map_assign [of k d m] by (auto simp: has_variables_def)

lemma has_variables_erase_record: "has_variables m \<Longrightarrow> has_variables (erase_record h m)"
  using set_erase_record [of h m] by (auto simp: has_variables_def)

lemma has_variables_map_of:
  "has_variables m \<Longrightarrow> map_of m k = Some d \<Longrightarrow> variableCurves d \<noteq> []"
  by (metis has_variables_def map_of_SomeD snd_conv)

lemma handle_IncrementalPlot [simp]:
  "handle (snd (IncrementalPlot_AddCurve l f p)) = handle p"
  "handle (IncrementalPlot_RemoveCurve c p) = handle p"
  "handle (snd (IncrementalPlot_DetachCurve c p)) = handle p"
  "handle (IncrementalPlot_AttachCurve cv p) = handle p"
  "handle (IncrementalPlot_SetCurveLabel c l p) = handle p"
  by (simp_all add: IncrementalPlot_AddCurve_def IncrementalPlot_RemoveCurve_def
      IncrementalPlot_DetachCurve_def IncrementalPlot_AttachCurve_def
      IncrementalPlot_SetCurveLabel_def Let_def split: option.splits)

text \<open>
  The invariant of the canvases that AddVariable, RemoveVariable, RemovePlot,
  OnMoveVariable and Clear build: the records are well formed, each has a variable, and
  the placeholder is visible exactly when there is no record.
\<close>

definition canvas_inv :: "PlotCanvas \<Rightarrow> bool" where
  "canvas_inv s =
     (records_ok s \<and> has_variables (plotData s) \<and> (emptyPlot s \<longleftrightarrow> plotData s = []))"

lemma AddPlot_fields:
  "plotData (snd (AddPlot s)) =
     map_assign (globalPlotId s)
       \<lparr>idPlot = globalPlotId s, plot = \<lparr>handle = nextHandle s, curves = []\<rparr>, variableCurves = []\<rparr>
       (plotData s)"
  "nextHandle (snd (AddPlot s)) = Suc (nextHandle s)"
  "fst (AddPlot s) = globalPlotId s"
  "emptyPlot (snd (AddPlot s)) = emptyPlot s"
  by (simp_all add: AddPlot_def Let_def)

lemma records_ok_AddPlot: "records_ok s \<Longrightarrow> records_ok (snd (AddPlot s))"
  by (rule records_ok_assign_new [where k = "globalPlotId s"]) (simp_all add: AddPlot_fields)

lemma canvas_inv_AddVariable:
  assumes "canvas_inv s"
  shows "canvas_inv (AddVariable i variable plotId' s)"
proof -
  define s1 where "s1 = (if plotId' = EMPTY_PLOT then snd (AddPlot s) else s)"
  define plotId where "plotId = (if plotId' = EMPTY_PLOT then fst (AddPlot s) else plotId')"
  have ok1: "records_ok s1"
    using assms by (simp add: s1_def canvas_inv_def records_ok_AddPlot)
  show ?thesis
  proof (cases "map_of (plotData s1) plotId")
    case None
    then have "plotId' \<noteq> EMPTY_PLOT"
      by (auto simp: s1_def plotId_def AddPlot_fields map_of_map_assign split: if_splits)
    with None assms show ?thesis
      by (simp add: AddVariable_def s1_def plotId_def)
  next
    case (Some d)
    define cp where "cp = IncrementalPlot_AddCurve variable (globalCurveId s1) (plot d)"
    define d' where "d' = d\<lparr>plot := snd cp, variableCurves := map_assign i (cId (fst cp)) (variableCurves d)\<rparr>"
    have res: "AddVariable i variable plotId' s =
        (hideEmptyPlot (s1\<lparr>plotData := map_assign plotId d' (plotData s1),
                           globalCurveId := globalCurveId s1 + 1\<rparr>))
          \<lparr>plotManager := PlotManager_AddCurve variable (fst cp)
               (plotManager s1)\<rparr>"
      using Some
      by (cases "plotId' = EMPTY_PLOT")
        (simp_all add: AddVariable_def s1_def plotId_def cp_def d'_def Let_def split_beta)
    have "records_ok (AddVariable i variable plotId' s)"
      by (rule records_ok_assign_same [OF ok1 Some, where d' = d'])
        (simp_all add: res d'_def cp_def)
    moreover have "has_variables (plotData s1) \<or> plotData s1 = map_assign plotId
        \<lparr>idPlot = globalPlotId s, plot = \<lparr>handle = nextHandle s, curves = []\<rparr>, variableCurves = []\<rparr>
        (plotData s)"
      using assms by (simp add: s1_def plotId_def canvas_inv_def AddPlot_fields)
    then have "has_variables (map_assign plotId d' (plotData s1))"
    proof
      assume "has_variables (plotData s1)"
      then show ?thesis
        by (rule has_variables_map_assign) (simp add: d'_def map_assign_not_Nil)
    next
      assume "plotData s1 = map_assign plotId
        \<lparr>idPlot = globalPlotId s, plot = \<lparr>handle = nextHandle s, curves = []\<rparr>, variableCurves = []\<rparr>
        (plotData s)"
      then have "map_assign plotId d' (plotData s1) = map_assign plotId d' (plotData s)"
        by (simp add: map_assign_twice)
      with assms show ?thesis
        by (simp add: canvas_inv_def has_variables_map_assign d'_def map_assign_not_Nil)
    qed
    ultimately show ?thesis
      by (simp add: canvas_inv_def res map_assign_not_Nil)
  qed
qed

subsection \<open>What OnMoveVariable computes\<close>

lemma OnMoveVariable_find_sound:
  assumes "OnMoveVariable_find i t m (a, b, c0) = (a', b', c')"
  shows "(a' = a \<and> c' = c0 \<or> (\<exists>k d. a' = Some k \<and> (k, d) \<in> set m \<and> map_of (variableCurves d) i = Some c')) \<and>
         (b' = b \<or> (\<exists>k d. b' = Some k \<and> (k, d) \<in> set m \<and> map_of (variableCurves d) t \<noteq> None))"
  using assms
proof (induction m arbitrary: a b c0)
  case Nil
  then show ?case by simp
next
  case (Cons kd m)
  obtain k d where kd: "kd = (k, d)" by (cases kd)
  define a1 where "a1 = (case map_of (variableCurves d) i of None \<Rightarrow> a | Some c \<Rightarrow> Some k)"
  define c1 where "c1 = (case map_of (variableCurves d) i of None \<Rightarrow> c0 | Some c \<Rightarrow> c)"
  define b1 where "b1 = (if map_of (variableCurves d) t \<noteq> None then Some k else b)"
  have a1: "a1 = a \<and> c1 = c0 \<or> (a1 = Some k \<and> map_of (variableCurves d) i = Some c1)"
    by (auto simp: a1_def c1_def split: option.splits)
  have b1: "b1 = b \<or> (b1 = Some k \<and> map_of (variableCurves d) t \<noteq> None)"
    by (auto simp: b1_def)
  show ?case
  proof (cases "a1 \<noteq> None \<and> b1 \<noteq> None")
    case True
    with Cons.prems kd have "a' = a1" "b' = b1" "c' = c1"
      by (auto simp: a1_def b1_def c1_def split: option.splits)
    with a1 b1 kd show ?thesis by auto
  next
    case False
    with Cons.prems kd have "OnMoveVariable_find i t m (a1, b1, c1) = (a', b', c')"
      by (auto simp: a1_def b1_def c1_def split: option.splits)
    from Cons.IH [OF this] a1 b1 kd show ?thesis
      by (elim conjE disjE) auto
  qed
qed

text \<open>The three ways OnMoveVariable ends when it has found the source record.\<close>

definition moved_source :: "uint \<Rightarrow> uint \<Rightarrow> PlotData \<Rightarrow> PlotData" where
  "moved_source i c d =
     d\<lparr>plot := (plot d)\<lparr>curves := map_erase c (curves (plot d))\<rparr>,
       variableCurves := map_erase i (variableCurves d)\<rparr>"

definition moved_target :: "uint \<Rightarrow> PlotCurve \<Rightarrow> PlotData \<Rightarrow> PlotData" where
  "moved_target i cv td =
     td\<lparr>plot := IncrementalPlot_AttachCurve cv (plot td),
        variableCurves := map_assign i (cId cv) (variableCurves td)\<rparr>"

definition erase_if_empty :: "PlotData \<Rightarrow> PlotCanvas \<Rightarrow> PlotCanvas" where
  "erase_if_empty src s2 =
     (if variableCurves src = [] then
        s2\<lparr>plotLayout := takeAt_indexOf (handle (plot src)) (plotLayout s2),
           plotData := erase_record (handle (plot src)) (plotData s2)\<rparr>
      else s2)"

lemma OnMoveVariable_same:
  assumes "OnMoveVariable_find i t (plotData s) (None, None, 0) = (Some k, Some k, c)"
    and "map_of (plotData s) k = Some d" and "map_of (curves (plot d)) c = Some cv"
  shows "OnMoveVariable i t s =
           Some (s\<lparr>plotData := map_assign k (moved_target i cv (moved_source i c d)) (plotData s)\<rparr>)"
  using assms
  by (simp add: OnMoveVariable_def IncrementalPlot_DetachCurve_def Let_def map_of_map_assign
      moved_source_def moved_target_def map_assign_not_Nil map_assign_twice)

lemma OnMoveVariable_target:
  assumes "OnMoveVariable_find i t (plotData s) (None, None, 0) = (Some k, Some tk, c)"
    and "map_of (plotData s) k = Some d" and "map_of (curves (plot d)) c = Some cv"
    and "tk \<noteq> k" and "map_of (plotData s) tk = Some td"
  shows "OnMoveVariable i t s =
           Some (erase_if_empty (moved_source i c d)
                  (s\<lparr>plotData := map_assign tk (moved_target i cv td)
                                   (map_assign k (moved_source i c d) (plotData s))\<rparr>))"
  using assms
  by (simp add: OnMoveVariable_def IncrementalPlot_DetachCurve_def Let_def map_of_map_assign
      moved_source_def moved_target_def erase_if_empty_def)

definition new_record :: "PlotCanvas \<Rightarrow> PlotData" where
  "new_record s =
     \<lparr>idPlot = globalPlotId s, plot = \<lparr>handle = nextHandle s, curves = []\<rparr>, variableCurves = []\<rparr>"

lemma OnMoveVariable_new:
  assumes "OnMoveVariable_find i t (plotData s) (None, None, 0) = (Some k, None, c)"
    and "map_of (plotData s) k = Some d" and "map_of (curves (plot d)) c = Some cv"
  shows "OnMoveVariable i t s =
           Some (erase_if_empty (moved_source i c d)
                  (s\<lparr>plotLayout := plotLayout s @ [nextHandle s],
                     plotData := map_assign (globalPlotId s) (moved_target i cv (new_record s))
                                   (map_assign k (moved_source i c d) (plotData s)),
                     emptyPlot := False,
                     globalPlotId := globalPlotId s + 1,
                     nextHandle := Suc (nextHandle s)\<rparr>))"
  using assms
  by (simp add: OnMoveVariable_def IncrementalPlot_DetachCurve_def Let_def map_of_map_assign
      moved_source_def moved_target_def erase_if_empty_def AddPlot_def new_record_def
      hideEmptyPlot_def map_assign_not_Nil map_assign_twice)

lemma OnMoveVariable_crash:
  assumes "OnMoveVariable_find i t (plotData s) (None, None, 0) = (Some k, b, c)"
    and "map_of (plotData s) k = Some d" and "map_of (curves (plot d)) c = None"
  shows "OnMoveVariable i t s = None"
  using assms
  by (simp add: OnMoveVariable_def IncrementalPlot_DetachCurve_def)

lemma OnMoveVariable_no_source:
  assumes "OnMoveVariable_find i t (plotData s) (None, None, 0) = (None, b, c)"
  shows "OnMoveVariable i t s = Some s"
  using assms by (simp add: OnMoveVariable_def)

subsection \<open>The operations keep the invariant\<close>

lemma canvas_inv_cong:
  "plotData s' = plotData s \<Longrightarrow> nextHandle s' = nextHandle s \<Longrightarrow> emptyPlot s' = emptyPlot s \<Longrightarrow>
   canvas_inv s' = canvas_inv s"
  by (simp add: canvas_inv_def records_ok_def)

lemma canvas_inv_erase:
  assumes "canvas_inv s" and "plotData s' = map_erase k (plotData s)"
    and "nextHandle s' = nextHandle s" and "emptyPlot s' = (plotData s' = [])"
  shows "canvas_inv s'"
  using assms records_ok_erase [of s s' k]
  by (simp add: canvas_inv_def has_variables_map_erase)

lemma canvas_inv_assign:
  assumes "canvas_inv s" and "map_of (plotData s) k = Some d"
    and "handle (plot d') = handle (plot d)" and "variableCurves d' \<noteq> []"
    and "plotData s' = map_assign k d' (plotData s)"
    and "nextHandle s' = nextHandle s" and "emptyPlot s' = False"
  shows "canvas_inv s'"
  using assms records_ok_assign_same [of s k d d' s']
  by (simp add: canvas_inv_def has_variables_map_assign map_assign_not_Nil)

lemma canvas_inv_RemoveVariable_plot:
  assumes "canvas_inv s"
  shows "canvas_inv (RemoveVariable_plot i k s)"
proof (cases "map_of (plotData s) k")
  case None
  with assms show ?thesis by (simp add: RemoveVariable_plot_def)
next
  case (Some d)
  then have ne: "plotData s \<noteq> []" by auto
  with assms have hidden: "\<not> emptyPlot s" by (simp add: canvas_inv_def)
  show ?thesis
  proof (cases "map_of (variableCurves d) i")
    case None
    with Some assms show ?thesis by (simp add: RemoveVariable_plot_def)
  next
    case c: (Some c)
    show ?thesis
    proof (cases "map_erase i (variableCurves d) = []")
      case True
      show ?thesis
        by (rule canvas_inv_erase [OF assms, where k = k])
          (use Some c True hidden in \<open>simp_all add: RemoveVariable_plot_def Let_def\<close>)
    next
      case False
      show ?thesis
        by (rule canvas_inv_assign [OF assms Some, where
              d' = "d\<lparr>variableCurves := map_erase i (variableCurves d),
                      plot := IncrementalPlot_RemoveCurve c (plot d)\<rparr>"])
          (use Some c False hidden in \<open>simp_all add: RemoveVariable_plot_def Let_def map_assign_not_Nil\<close>)
    qed
  qed
qed

lemma canvas_inv_RemoveVariable:
  assumes "canvas_inv s"
  shows "canvas_inv (RemoveVariable i s)"
proof (cases "findVariable i (plotData s)")
  case None
  have "showEmptyPlot s = s"
    using assms by (auto simp: showEmptyPlot_def canvas_inv_def)
  with None assms show ?thesis by (simp add: RemoveVariable_def)
next
  case (Some kdc)
  obtain k d c where kdc: "kdc = (k, d, c)" by (cases kdc)
  with Some have "(k, d) \<in> set (plotData s)"
    using findVariable_Some by blast
  with assms have d: "map_of (plotData s) k = Some d"
    by (simp add: canvas_inv_def records_ok_def map_sorted_map_of)
  then have ne: "plotData s \<noteq> []" by auto
  with assms have hidden: "\<not> emptyPlot s" by (simp add: canvas_inv_def)
  show ?thesis
  proof (cases "map_erase i (variableCurves d) = []")
    case True
    show ?thesis
      by (rule canvas_inv_erase [OF assms, where k = k])
        (use Some kdc True hidden in \<open>simp_all add: RemoveVariable_def Let_def\<close>)
  next
    case False
    show ?thesis
      by (rule canvas_inv_assign [OF assms d, where
            d' = "d\<lparr>variableCurves := map_erase i (variableCurves d),
                    plot := IncrementalPlot_RemoveCurve c (plot d)\<rparr>"])
        (use Some kdc False hidden in \<open>simp_all add: RemoveVariable_def Let_def map_assign_not_Nil\<close>)
  qed
qed

lemma canvas_inv_RemovePlot_loop: "canvas_inv s \<Longrightarrow> canvas_inv (RemovePlot_loop k s)"
proof (induction k s rule: RemovePlot_loop.induct)
  case (1 plotId s)
  show ?case
  proof (cases "map_of (plotData s) plotId")
    case None
    with 1(2) show ?thesis by (simp add: RemovePlot_loop_None)
  next
    case (Some d)
    show ?thesis
    proof (cases "1 < length (variableCurves d)")
      case True
      with 1 Some show ?thesis
        by (simp add: RemovePlot_loop_step canvas_inv_RemoveVariable_plot)
    next
      case False
      with 1(2) Some show ?thesis by (simp add: RemovePlot_loop_stop)
    qed
  qed
qed

lemma canvas_inv_RemovePlot:
  assumes "canvas_inv s"
  shows "canvas_inv (RemovePlot k s)"
proof (cases "map_of (plotData s) k")
  case None
  with assms show ?thesis by (simp add: RemovePlot_def)
next
  case (Some d)
  with assms have "variableCurves d \<noteq> []"
    using has_variables_map_of [of "plotData s" k d] by (simp add: canvas_inv_def)
  with Some assms show ?thesis
    by (simp add: RemovePlot_def Let_def canvas_inv_RemovePlot_loop canvas_inv_RemoveVariable_plot
        split: option.splits list.splits)
qed

lemma canvas_inv_Clear: "canvas_inv s \<Longrightarrow> canvas_inv (Clear s)"
proof (induction s rule: Clear.induct)
  case (1 s)
  then show ?case
    by (cases "plotData s = []") (simp_all add: Clear_Nil Clear_step canvas_inv_RemovePlot)
qed

lemma canvas_inv_OnAddVariable:
  "canvas_inv s \<Longrightarrow> canvas_inv (OnAddVariable i variable targetId s)"
  by (simp add: OnAddVariable_def canvas_inv_AddVariable split: option.splits)

lemma canvas_inv_AddVariable_name:
  assumes "canvas_inv s"
  shows "canvas_inv (snd (AddVariable_name variable plotId s))"
proof -
  have "canvas_inv (s\<lparr>yVariableContainer := c, globalVariableId := g\<rparr>)" for c g
    using assms by (simp add: canvas_inv_def records_ok_def)
  then show ?thesis
    by (simp add: AddVariable_name_def VariablePillContainer_AddVariablePill_def Let_def
        canvas_inv_OnAddVariable)
qed

lemma erase_record_handle:
  "distinct (handles m) \<Longrightarrow> kd \<in> set (erase_record h m) \<Longrightarrow> handle (plot (snd kd)) \<noteq> h"
proof (induction m)
  case Nil
  then show ?case by simp
next
  case (Cons a m)
  obtain k' v' where a: "a = (k', v')" by (cases a)
  show ?case
  proof (cases "handle (plot v') = h")
    case True
    with Cons.prems a have "kd \<in> set m" and "h \<notin> set (handles m)"
      by (auto simp: handles_def)
    then show ?thesis by (auto simp: handles_def)
  next
    case False
    with Cons a show ?thesis by (auto simp: handles_def)
  qed
qed

lemma erase_record_keeps:
  "kd \<in> set m \<Longrightarrow> handle (plot (snd kd)) \<noteq> h \<Longrightarrow> kd \<in> set (erase_record h m)"
  by (induction m) auto

lemma handles_differ:
  assumes "distinct (handles m)" and "(k, d) \<in> set m" and "(k', d') \<in> set m" and "k \<noteq> k'"
  shows "handle (plot d) \<noteq> handle (plot d')"
proof -
  from assms(1) have "inj_on (\<lambda>kd. handle (plot (snd kd))) (set m)"
    by (simp add: handles_def distinct_map)
  from inj_onD [OF this, of "(k, d)" "(k', d')"] assms(2-4) show ?thesis by auto
qed

lemma canvas_inv_erase_if_empty:
  assumes ok: "records_ok s2" and hidden: "\<not> emptyPlot s2"
    and keep: "(k2, d2) \<in> set (plotData s2)" "handle (plot d2) \<noteq> handle (plot src)"
    and hv: "\<And>kd. kd \<in> set (plotData s2) \<Longrightarrow> kd \<noteq> (k, src) \<Longrightarrow> variableCurves (snd kd) \<noteq> []"
  shows "canvas_inv (erase_if_empty src s2)"
proof (cases "variableCurves src = []")
  case False
  have "has_variables (plotData s2)"
    unfolding has_variables_def
  proof
    fix kd assume "kd \<in> set (plotData s2)"
    with hv [of kd] False show "variableCurves (snd kd) \<noteq> []"
      by (cases "kd = (k, src)") auto
  qed
  with False ok hidden keep(1) show ?thesis
    by (auto simp: erase_if_empty_def canvas_inv_def)
next
  case True
  let ?s' = "erase_if_empty src s2"
  let ?h = "handle (plot src)"
  have pd: "plotData ?s' = erase_record ?h (plotData s2)"
    and nh: "nextHandle ?s' = nextHandle s2" and ep: "emptyPlot ?s' = emptyPlot s2"
    using True by (simp_all add: erase_if_empty_def)
  have "records_ok ?s'"
    using ok pd nh by (rule records_ok_erase_record)
  moreover have "has_variables (plotData ?s')"
    unfolding has_variables_def pd
  proof
    fix kd assume mem: "kd \<in> set (erase_record ?h (plotData s2))"
    from ok have "distinct (handles (plotData s2))" by (simp add: records_ok_def)
    from erase_record_handle [OF this mem] have "handle (plot (snd kd)) \<noteq> ?h" .
    then have "kd \<noteq> (k, src)" by auto
    moreover from mem have "kd \<in> set (plotData s2)"
      using set_erase_record by blast
    ultimately show "variableCurves (snd kd) \<noteq> []" by (rule hv [rotated])
  qed
  moreover have "(k2, d2) \<in> set (plotData ?s')"
    unfolding pd using keep by (simp add: erase_record_keeps)
  then have "plotData ?s' \<noteq> []" by auto
  ultimately show ?thesis using hidden ep by (simp add: canvas_inv_def)
qed

lemma canvas_inv_OnMoveVariable:
  assumes inv: "canvas_inv s" and res: "OnMoveVariable i t s = Some s'"
  shows "canvas_inv s'"
proof -
  obtain a b c where f: "OnMoveVariable_find i t (plotData s) (None, None, 0) = (a, b, c)"
    by (metis prod_cases3)
  note sound = OnMoveVariable_find_sound [OF f]
  from inv have ok: "records_ok s" and hv: "has_variables (plotData s)"
    by (simp_all add: canvas_inv_def)
  from ok have sorted: "map_sorted (plotData s)" and dist: "distinct (handles (plotData s))"
    by (simp_all add: records_ok_def)
  show ?thesis
  proof (cases a)
    case None
    with f res inv show ?thesis by (simp add: OnMoveVariable_no_source)
  next
    case (Some k)
    with sound obtain d where kd: "(k, d) \<in> set (plotData s)"
      and ci: "map_of (variableCurves d) i = Some c" by auto
    from sorted kd have d: "map_of (plotData s) k = Some d" by (rule map_sorted_map_of)
    then have "plotData s \<noteq> []" by auto
    with inv have hidden: "\<not> emptyPlot s" by (simp add: canvas_inv_def)
    obtain cv where cv: "map_of (curves (plot d)) c = Some cv"
      using OnMoveVariable_crash [of i t s k b c d] f Some d res
      by (cases "map_of (curves (plot d)) c") auto
    let ?d1 = "moved_source i c d"
    let ?s1 = "s\<lparr>plotData := map_assign k ?d1 (plotData s)\<rparr>"
    have h1: "handle (plot ?d1) = handle (plot d)" by (simp add: moved_source_def)
    have ok1: "records_ok ?s1"
      by (rule records_ok_assign_same [OF ok d h1]) simp_all
    have d1: "map_of (plotData ?s1) k = Some ?d1" by (simp add: map_of_map_assign)
    have tv: "variableCurves (moved_target i cv x) \<noteq> []" for x
      by (simp add: moved_target_def map_assign_not_Nil)
    have th: "handle (plot (moved_target i cv x)) = handle (plot x)" for x
      by (simp add: moved_target_def)
    show ?thesis
    proof (cases b)
      case None
      let ?nd = "moved_target i cv (new_record s)"
      let ?s2 = "s\<lparr>plotLayout := plotLayout s @ [nextHandle s],
                     plotData := map_assign (globalPlotId s) ?nd (plotData ?s1),
                     emptyPlot := False,
                     globalPlotId := globalPlotId s + 1,
                     nextHandle := Suc (nextHandle s)\<rparr>"
      from f Some None d cv res have s': "s' = erase_if_empty ?d1 ?s2"
        by (simp add: OnMoveVariable_new)
      have ndh: "handle (plot ?nd) = nextHandle s" by (simp add: th new_record_def)
      have ok2: "records_ok ?s2"
        by (rule records_ok_assign_new [OF ok1, where k = "globalPlotId s" and d' = "?nd"])
          (simp_all add: ndh)
      have "map_of (plotData ?s2) (globalPlotId s) = Some ?nd"
        by (simp add: map_of_map_assign)
      then have keep: "(globalPlotId s, ?nd) \<in> set (plotData ?s2)" by (rule map_of_SomeD)
      from kd have "handle (plot d) \<in> set (handles (plotData s))" by (force simp: handles_def)
      with ok have "handle (plot d) < nextHandle s" by (simp add: records_ok_def list_all_iff)
      with ndh h1 have ne: "handle (plot ?nd) \<noteq> handle (plot ?d1)" by simp
      have "canvas_inv (erase_if_empty ?d1 ?s2)"
      proof (rule canvas_inv_erase_if_empty [OF ok2 _ keep ne, where k = k])
        show "\<not> emptyPlot ?s2" by simp
      next
        fix kd' assume "kd' \<in> set (plotData ?s2)" and "kd' \<noteq> (k, ?d1)"
        moreover have "set (plotData ?s2) \<subseteq>
            insert (globalPlotId s, ?nd) (insert (k, ?d1) (set (plotData s)))"
          using set_map_assign [of "globalPlotId s" ?nd "plotData ?s1"]
            set_map_assign [of k ?d1 "plotData s"] by auto
        ultimately have "kd' = (globalPlotId s, ?nd) \<or> kd' \<in> set (plotData s)" by auto
        with hv tv show "variableCurves (snd kd') \<noteq> []"
          by (auto simp: has_variables_def)
      qed
      with s' show ?thesis by simp
    next
      case tk: (Some tk)
      show ?thesis
      proof (cases "tk = k")
        case True
        let ?td = "moved_target i cv ?d1"
        from f Some tk True d cv res
        have s': "s' = s\<lparr>plotData := map_assign k ?td (plotData s)\<rparr>"
          by (simp add: OnMoveVariable_same)
        show ?thesis
          by (rule canvas_inv_assign [OF inv d, where d' = ?td])
            (simp_all add: s' th h1 tv hidden)
      next
        case False
        from sound tk obtain td where tkd: "(tk, td) \<in> set (plotData s)" by auto
        from sorted tkd have td: "map_of (plotData s) tk = Some td" by (rule map_sorted_map_of)
        let ?td = "moved_target i cv td"
        let ?s2 = "s\<lparr>plotData := map_assign tk ?td (plotData ?s1)\<rparr>"
        from f Some tk False d cv td res have s': "s' = erase_if_empty ?d1 ?s2"
          by (simp add: OnMoveVariable_target)
        from td False have td1: "map_of (plotData ?s1) tk = Some td"
          by (simp add: map_of_map_assign)
        have ok2: "records_ok ?s2"
          by (rule records_ok_assign_same [OF ok1 td1, where d' = ?td]) (simp_all add: th)
        have "map_of (plotData ?s2) tk = Some ?td" by (simp add: map_of_map_assign)
        then have keep: "(tk, ?td) \<in> set (plotData ?s2)" by (rule map_of_SomeD)
        from dist tkd kd False have "handle (plot td) \<noteq> handle (plot d)"
          by (rule handles_differ)
        with th h1 have ne: "handle (plot ?td) \<noteq> handle (plot ?d1)" by simp
        have "canvas_inv (erase_if_empty ?d1 ?s2)"
        proof (rule canvas_inv_erase_if_empty [OF ok2 _ keep ne, where k = k])
          show "\<not> emptyPlot ?s2" using hidden by simp
        next
          fix kd' assume "kd' \<in> set (plotData ?s2)" and "kd' \<noteq> (k, ?d1)"
          moreover have "set (plotData ?s2) \<subseteq> insert (tk, ?td) (insert (k, ?d1) (set (plotData s)))"
            using set_map_assign [of tk ?td "plotData ?s1"]
              set_map_assign [of k ?d1 "plotData s"] by auto
          ultimately have "kd' = (tk, ?td) \<or> kd' \<in> set (plotData s)" by auto
          with hv tv show "variableCurves (snd kd') \<noteq> []"
            by (auto simp: has_variables_def)
        qed
        with s' show ?thesis by simp
      qed
    qed
  qed
qed

subsection \<open>The placeholder and the map of records\<close>

text \<open>
  The exposed operations, and a canvas driven by a sequence of them. OnMoveVariable can
  stop the program (a null dereference); the run then has no final state.
\<close>

datatype operation =
  OpAddPlot
| OpAddVariable uint string uint
| OpAddVariable_name string uint
| OpRemoveVariable uint
| OpRemoveVariable_plot uint uint
| OpRemovePlot uint
| OpOnMoveVariable uint uint
| OpClear

fun apply_operation :: "operation \<Rightarrow> PlotCanvas \<Rightarrow> PlotCanvas option" where
  "apply_operation OpAddPlot s = Some (snd (AddPlot s))"
| "apply_operation (OpAddVariable i variable plotId) s = Some (AddVariable i variable plotId s)"
| "apply_operation (OpAddVariable_name variable plotId) s =
     Some (snd (AddVariable_name variable plotId s))"
| "apply_operation (OpRemoveVariable i) s = Some (RemoveVariable i s)"
| "apply_operation (OpRemoveVariable_plot i plotId) s = Some (RemoveVariable_plot i plotId s)"
| "apply_operation (OpRemovePlot plotId) s = Some (RemovePlot plotId s)"
| "apply_operation (OpOnMoveVariable i targetId) s = OnMoveVariable i targetId s"
| "apply_operation OpClear s = Some (Clear s)"

fun run :: "operation list \<Rightarrow> PlotCanvas \<Rightarrow> PlotCanvas option" where
  "run [] s = Some s"
| "run (op # ops) s =
     (case apply_operation op s of
        None \<Rightarrow> None
      | Some s' \<Rightarrow> run ops s')"

lemma canvas_inv_new: "canvas_inv PlotCanvas_new"
  by (simp add: canvas_inv_def records_ok_def PlotCanvas_new_def map_sorted_def handles_def
      has_variables_def)

lemma canvas_inv_apply_operation:
  assumes "canvas_inv s" and "op \<noteq> OpAddPlot" and "apply_operation op s = Some s'"
  shows "canvas_inv s'"
  using assms
  by (cases op)
    (auto simp: canvas_inv_AddVariable canvas_inv_AddVariable_name canvas_inv_RemoveVariable
      canvas_inv_RemoveVariable_plot canvas_inv_RemovePlot canvas_inv_Clear
      intro: canvas_inv_OnMoveVariable)

lemma canvas_inv_run:
  "canvas_inv s \<Longrightarrow> OpAddPlot \<notin> set ops \<Longrightarrow> run ops s = Some s' \<Longrightarrow> canvas_inv s'"
proof (induction ops arbitrary: s)
  case Nil
  then show ?case by simp
next
  case (Cons op ops)
  from Cons.prems(3) obtain s1 where s1: "apply_operation op s = Some s1"
    and rest: "run ops s1 = Some s'"
    by (auto split: option.splits)
  from Cons.prems(2) have "op \<noteq> OpAddPlot" by auto
  with Cons.prems(1) have "canvas_inv s1"
    using s1 by (rule canvas_inv_apply_operation)
  with Cons.IH [of s1] Cons.prems(2) rest show ?case by simp
qed

text \<open>
  C1, as the code has it: at every state reached from a new canvas by AddVariable,
  RemoveVariable (both overloads of each), RemovePlot, OnMoveVariable and Clear, the
  placeholder is visible exactly when there is no plot record. AddPlot is not among
  them: it adds a record and does not touch the placeholder, which the callers of
  AddPlot hide once the new plot has a curve.
\<close>

theorem C1_placeholder:
  "(OpAddPlot \<notin> set ops \<and> run ops PlotCanvas_new = Some s \<longrightarrow>
      (emptyPlot s \<longleftrightarrow> plotData s = [])) \<and>
   emptyPlot (snd (AddPlot s0)) = emptyPlot s0 \<and> plotData (snd (AddPlot s0)) \<noteq> []"
proof -
  have "emptyPlot s \<longleftrightarrow> plotData s = []"
    if "OpAddPlot \<notin> set ops" "run ops PlotCanvas_new = Some s"
    using canvas_inv_run [OF canvas_inv_new that] by (simp add: canvas_inv_def)
  then show ?thesis
    by (auto simp: AddPlot_fields map_assign_not_Nil)
qed

definition example_run :: "operation list" where
  "example_run =
     [OpAddVariable_name ''x'' EMPTY_PLOT, OpAddVariable_name ''y'' 0, OpOnMoveVariable 0 9,
      OpRemoveVariable 1, OpAddVariable 7 ''z'' 1, OpRemovePlot 1]"

theorem C1_placeholder_witness:
  "OpAddPlot \<notin> set example_run \<and>
   run example_run PlotCanvas_new = Some (the (run example_run PlotCanvas_new)) \<and>
   emptyPlot (the (run example_run PlotCanvas_new)) \<and>
   plotData (the (run example_run PlotCanvas_new)) = []"
proof -
  have h1: "OpAddPlot \<notin> set example_run"
    by (simp add: example_run_def)
  have h2: "run example_run PlotCanvas_new = Some (the (run example_run PlotCanvas_new))"
    by code_simp
  have h3: "plotData (the (run example_run PlotCanvas_new)) = []"
    by code_simp
  from C1_placeholder [of example_run "the (run example_run PlotCanvas_new)"] h1 h2 h3
  have "emptyPlot (the (run example_run PlotCanvas_new))" by blast
  with h1 h2 h3 show ?thesis by blast
qed

text \<open>
  The claim as stated counts AddPlot among the operations: after AddPlot on a new canvas
  there is a record and the placeholder is still visible.
\<close>

definition canvas_plot :: PlotCanvas where
  "canvas_plot = snd (AddPlot PlotCanvas_new)"

theorem C1_counterexample:
  "run [OpAddPlot] PlotCanvas_new = Some canvas_plot \<and>
   emptyPlot canvas_plot \<and> plotData canvas_plot \<noteq> []"
  by code_simp

subsection \<open>Variables with one owner\<close>

text \<open>
  The keys of the records whose mapping holds a variable, in the order of the map. The
  data model of the spec lets a variable be in at most one record.
\<close>

definition owners :: "uint \<Rightarrow> (uint \<times> PlotData) list \<Rightarrow> uint list" where
  "owners i m = map fst (filter (\<lambda>kd. map_of (variableCurves (snd kd)) i \<noteq> None) m)"

definition single_owner :: "uint \<Rightarrow> (uint \<times> PlotData) list \<Rightarrow> bool" where
  "single_owner i m = (length (owners i m) \<le> 1)"

lemma owners_Nil_findVariable: "owners i m = [] \<longleftrightarrow> findVariable i m = None"
  by (induction m) (auto simp: owners_def split: option.splits)

lemma findVariable_owners:
  "findVariable i m = Some (k, d, c) \<Longrightarrow> single_owner i m \<Longrightarrow> owners i m = [k]"
proof (induction m)
  case Nil
  then show ?case by simp
next
  case (Cons a m)
  obtain k' d' where a: "a = (k', d')" by (cases a)
  show ?case
  proof (cases "map_of (variableCurves d') i")
    case None
    with Cons a show ?thesis by (simp add: owners_def single_owner_def)
  next
    case (Some c')
    with Cons.prems a have "k' = k" and "length (owners i m) = 0"
      by (simp_all add: owners_def single_owner_def)
    with Some a show ?thesis by (simp add: owners_def)
  qed
qed

lemma OnMoveVariable_find_unique:
  assumes "single_owner i m" and "single_owner t m"
    and "a \<noteq> None \<longrightarrow> owners i m = []" and "b \<noteq> None \<longrightarrow> owners t m = []"
  shows "OnMoveVariable_find i t m (a, b, c0) =
           (case findVariable i m of None \<Rightarrow> a | Some (k, d, c) \<Rightarrow> Some k,
            case findVariable t m of None \<Rightarrow> b | Some (k, d, c) \<Rightarrow> Some k,
            case findVariable i m of None \<Rightarrow> c0 | Some (k, d, c) \<Rightarrow> c)"
  using assms
proof (induction m arbitrary: a b c0)
  case Nil
  then show ?case by simp
next
  case (Cons kd m)
  obtain k d where kd: "kd = (k, d)" by (cases kd)
  have so: "single_owner i m" "single_owner t m"
    using Cons.prems(1,2) kd by (auto simp: single_owner_def owners_def split: if_splits)
  show ?case
  proof (cases "map_of (variableCurves d) i")
    case ni: None
    then have oi: "owners i (kd # m) = owners i m" by (simp add: kd owners_def)
    show ?thesis
    proof (cases "map_of (variableCurves d) t")
      case nt: None
      then have ot: "owners t (kd # m) = owners t m" by (simp add: kd owners_def)
      show ?thesis
      proof (cases "a \<noteq> None \<and> b \<noteq> None")
        case True
        with Cons.prems oi ot have "findVariable i m = None" "findVariable t m = None"
          by (simp_all add: owners_Nil_findVariable)
        with True ni nt kd show ?thesis by simp
      next
        case False
        with Cons.IH [OF so, of a b c0] Cons.prems(3,4) oi ot ni nt kd show ?thesis
          by auto
      qed
    next
      case st: (Some ct)
      then have "owners t (kd # m) = k # owners t m" by (simp add: kd owners_def)
      with Cons.prems(2,4) have ot: "owners t m = []" and b: "b = None"
        by (auto simp: single_owner_def)
      then have ft: "findVariable t m = None" by (simp add: owners_Nil_findVariable)
      show ?thesis
      proof (cases "a = None")
        case True
        note an = this
        with Cons.IH [OF so, of None "Some k" c0] ot oi ni st kd b ft show ?thesis
          by (simp split: option.splits)
      next
        case False
        with Cons.prems(3) oi have "findVariable i m = None"
          by (simp add: owners_Nil_findVariable)
        with False ni st kd show ?thesis by auto
      qed
    qed
  next
    case si: (Some c)
    then have "owners i (kd # m) = k # owners i m" by (simp add: kd owners_def)
    with Cons.prems(1,3) have oi: "owners i m = []" and a: "a = None"
      by (auto simp: single_owner_def)
    then have fi: "findVariable i m = None" by (simp add: owners_Nil_findVariable)
    show ?thesis
    proof (cases "map_of (variableCurves d) t")
      case nt: None
      then have ot: "owners t (kd # m) = owners t m" by (simp add: kd owners_def)
      show ?thesis
      proof (cases "b = None")
        case True
        with Cons.IH [OF so, of "Some k" None c] oi ot si nt kd a fi show ?thesis
          by (simp split: option.splits)
      next
        case False
        with Cons.prems(4) ot have "findVariable t m = None"
          by (simp add: owners_Nil_findVariable)
        with False si nt kd show ?thesis by auto
      qed
    next
      case st: (Some ct)
      with si kd show ?thesis by simp
    qed
  qed
qed

lemma set_owners:
  assumes "map_sorted m"
  shows "set (owners i m) = {k. \<exists>d. map_of m k = Some d \<and> map_of (variableCurves d) i \<noteq> None}"
proof -
  have "set (owners i m) = {k. \<exists>d. (k, d) \<in> set m \<and> map_of (variableCurves d) i \<noteq> None}"
    by (force simp: owners_def)
  also have "\<dots> = {k. \<exists>d. map_of m k = Some d \<and> map_of (variableCurves d) i \<noteq> None}"
    using assms by (simp add: map_sorted_distinct)
  finally show ?thesis .
qed

lemma distinct_owners: "map_sorted m \<Longrightarrow> distinct (owners i m)"
  by (simp add: owners_def distinct_map_filter map_sorted_distinct)

lemma owners_single:
  assumes "map_sorted m" and "map_of m k = Some d" and "map_of (variableCurves d) i \<noteq> None"
    and "\<And>k' d'. k' \<noteq> k \<Longrightarrow> map_of m k' = Some d' \<Longrightarrow> map_of (variableCurves d') i = None"
  shows "owners i m = [k]"
proof -
  have "k' = k" if "map_of m k' = Some d'" "map_of (variableCurves d') i \<noteq> None" for k' d'
    using assms(4) [of k' d'] that by (cases "k' = k") auto
  with assms(2,3) have "set (owners i m) = {k}"
    unfolding set_owners [OF assms(1)] by blast
  moreover have "distinct (owners i m)" using assms(1) by (rule distinct_owners)
  ultimately obtain rest where o: "owners i m = k # rest" and "set rest \<subseteq> {k}" "k \<notin> set rest"
    by (cases "owners i m") (auto split: if_splits)
  then have "rest = []" by (cases rest) auto
  with o show ?thesis by simp
qed

subsection \<open>Moving a variable\<close>

text \<open>
  A record is well formed when the keys of its mapping and of its plot's curves ascend,
  and every entry of the mapping names a curve that the plot holds under that id.
  Without such a curve OnMoveVariable dereferences a null pointer.
\<close>

definition record_ok :: "PlotData \<Rightarrow> bool" where
  "record_ok d =
     (map_sorted (variableCurves d) \<and> map_sorted (curves (plot d)) \<and>
      list_all (\<lambda>vc. map_option cId (map_of (curves (plot d)) (snd vc)) = Some (snd vc))
        (variableCurves d))"

lemma record_ok_curve:
  assumes "record_ok d" and "map_of (variableCurves d) i = Some c"
  obtains cv where "map_of (curves (plot d)) c = Some cv" and "cId cv = c"
proof -
  from assms(2) have "(i, c) \<in> set (variableCurves d)" by (rule map_of_SomeD)
  moreover from assms(1) have "\<forall>vc \<in> set (variableCurves d).
      map_option cId (map_of (curves (plot d)) (snd vc)) = Some (snd vc)"
    by (simp add: record_ok_def list_all_iff)
  ultimately have "map_option cId (map_of (curves (plot d)) (snd (i, c))) = Some (snd (i, c))"
    by blast
  then have "map_option cId (map_of (curves (plot d)) c) = Some c" by simp
  with that show ?thesis by (cases "map_of (curves (plot d)) c") auto
qed

lemma OnMoveVariable_find_owned:
  assumes "single_owner i m" and "single_owner t m" and "findVariable i m = Some (k, d, c)"
  shows "OnMoveVariable_find i t m (None, None, 0) =
           (Some k, (case findVariable t m of None \<Rightarrow> None | Some (tk, td, tc) \<Rightarrow> Some tk), c)"
  using OnMoveVariable_find_unique [OF assms(1,2), of None None 0] assms(3) by simp

lemma OnMoveVariable_within_plot:
  assumes "map_sorted (plotData s)"
    and "single_owner i (plotData s)" and "single_owner t (plotData s)"
    and "findVariable i (plotData s) = Some (k, d, c)"
    and "findVariable t (plotData s) = Some (k, d, ct)"
    and "record_ok d"
  shows "OnMoveVariable i t s = Some s"
proof -
  from assms(4) have "(k, d) \<in> set (plotData s)" and ci: "map_of (variableCurves d) i = Some c"
    using findVariable_Some by blast+
  with assms(1) have d: "map_of (plotData s) k = Some d" by (simp add: map_sorted_map_of)
  from assms(6) ci obtain cv where cv: "map_of (curves (plot d)) c = Some cv" and cid: "cId cv = c"
    by (rule record_ok_curve)
  have find: "OnMoveVariable_find i t (plotData s) (None, None, 0) = (Some k, Some k, c)"
    using OnMoveVariable_find_owned [OF assms(2,3,4)] assms(5) by simp
  have "map_assign i c (map_erase i (variableCurves d)) = variableCurves d"
    using assms(6) ci by (simp add: record_ok_def map_assign_erase)
  moreover have "map_assign c cv (map_erase c (curves (plot d))) = curves (plot d)"
    using assms(6) cv by (simp add: record_ok_def map_assign_erase)
  ultimately have "moved_target i cv (moved_source i c d) = d"
    by (simp add: moved_target_def moved_source_def IncrementalPlot_AttachCurve_def cid)
  with OnMoveVariable_same [OF find d cv] assms(1) d show ?thesis
    by (simp add: map_assign_same)
qed

text \<open>
  C10: when both variables are in the same record, each in no other record,
  OnMoveVariable detaches the curve and attaches it to the same plot again, erases the
  entry and inserts it again with the same curve id: the canvas is as before.
\<close>

theorem C10_move_within_plot:
  assumes "map_sorted (plotData s)"
    and "single_owner i (plotData s)" and "single_owner t (plotData s)"
    and "findVariable i (plotData s) = Some (k, d, c)"
    and "findVariable t (plotData s) = Some (k, d, ct)"
    and "record_ok d"
  shows "OnMoveVariable i t s = Some s"
  using assms by (rule OnMoveVariable_within_plot)

theorem C10_move_within_plot_witness:
  "map_sorted (plotData canvas_xy) \<and>
   single_owner 0 (plotData canvas_xy) \<and> single_owner 1 (plotData canvas_xy) \<and>
   findVariable 0 (plotData canvas_xy) = Some (0, snd (hd (plotData canvas_xy)), 0) \<and>
   findVariable 1 (plotData canvas_xy) = Some (0, snd (hd (plotData canvas_xy)), 1) \<and>
   record_ok (snd (hd (plotData canvas_xy))) \<and>
   OnMoveVariable 0 1 canvas_xy = Some canvas_xy"
proof -
  have h1: "map_sorted (plotData canvas_xy)" by code_simp
  have h2: "single_owner 0 (plotData canvas_xy)" by code_simp
  have h3: "single_owner 1 (plotData canvas_xy)" by code_simp
  have h4: "findVariable 0 (plotData canvas_xy) = Some (0, snd (hd (plotData canvas_xy)), 0)"
    by code_simp
  have h5: "findVariable 1 (plotData canvas_xy) = Some (0, snd (hd (plotData canvas_xy)), 1)"
    by code_simp
  have h6: "record_ok (snd (hd (plotData canvas_xy)))" by code_simp
  from C10_move_within_plot [OF h1 h2 h3 h4 h5 h6] h1 h2 h3 h4 h5 h6 show ?thesis
    by blast
qed

text \<open>The number of variable-to-curve entries of all records.\<close>

definition VariableTotal :: "(uint \<times> PlotData) list \<Rightarrow> nat" where
  "VariableTotal m = sum_list (map (\<lambda>kd. length (variableCurves (snd kd))) m)"

lemma VariableTotal_assign_absent:
  "map_of m k = None \<Longrightarrow>
   VariableTotal (map_assign k d' m) = VariableTotal m + length (variableCurves d')"
  by (induction m) (auto simp: VariableTotal_def split: if_splits)

lemma VariableTotal_assign:
  "map_sorted m \<Longrightarrow> map_of m k = Some d \<Longrightarrow>
   VariableTotal (map_assign k d' m) + length (variableCurves d) =
   VariableTotal m + length (variableCurves d')"
proof (induction m)
  case Nil
  then show ?case by simp
next
  case (Cons a m)
  obtain k' v' where a: "a = (k', v')" by (cases a)
  from Cons.prems(1) a have tl: "map_sorted m" and hd: "\<forall>kd \<in> set m. k' < fst kd"
    by (simp_all add: map_sorted_Cons)
  show ?case
  proof (cases "k = k'")
    case True
    with Cons.prems a show ?thesis by (simp add: VariableTotal_def)
  next
    case False
    with Cons.prems a have in_tl: "map_of m k = Some d" by simp
    then have "(k, d) \<in> set m" by (rule map_of_SomeD)
    with hd have "k' < k" by auto
    then have "\<not> k < k'" by simp
    with Cons.IH [OF tl in_tl] a False show ?thesis by (simp add: VariableTotal_def)
  qed
qed

lemma VariableTotal_erase:
  "map_sorted m \<Longrightarrow> map_of m k = Some d \<Longrightarrow>
   VariableTotal (map_erase k m) + length (variableCurves d) = VariableTotal m"
proof (induction m)
  case Nil
  then show ?case by simp
next
  case (Cons a m)
  obtain k' v' where a: "a = (k', v')" by (cases a)
  from Cons.prems(1) a have tl: "map_sorted m" and hd: "\<forall>kd \<in> set m. k' < fst kd"
    by (simp_all add: map_sorted_Cons)
  show ?case
  proof (cases "k = k'")
    case True
    from hd tl have "map_of m k' = None" by (simp add: map_sorted_less_absent)
    then have "map_erase k' m = m" by (rule map_erase_absent)
    then have "filter (\<lambda>kv. fst kv \<noteq> k') m = m" by (simp add: map_erase_def)
    with True Cons.prems a show ?thesis by (simp add: VariableTotal_def map_erase_def)
  next
    case False
    with Cons.prems a have in_tl: "map_of m k = Some d" by simp
    with Cons.IH [OF tl in_tl] a False show ?thesis
      by (simp add: VariableTotal_def map_erase_def)
  qed
qed

lemma length_map_erase_present:
  "map_sorted m \<Longrightarrow> map_of m k = Some v \<Longrightarrow> Suc (length (map_erase k m)) = length m"
proof (induction m)
  case Nil
  then show ?case by simp
next
  case (Cons a m)
  obtain k' v' where a: "a = (k', v')" by (cases a)
  from Cons.prems(1) a have tl: "map_sorted m" and hd: "\<forall>kd \<in> set m. k' < fst kd"
    by (simp_all add: map_sorted_Cons)
  show ?case
  proof (cases "k = k'")
    case True
    from hd tl have "map_of m k' = None" by (simp add: map_sorted_less_absent)
    then have "map_erase k' m = m" by (rule map_erase_absent)
    then have "filter (\<lambda>kv. fst kv \<noteq> k') m = m" by (simp add: map_erase_def)
    with True a show ?thesis by (simp add: map_erase_def)
  next
    case False
    with Cons.prems a have in_tl: "map_of m k = Some v" by simp
    with Cons.IH [OF tl in_tl] a False show ?thesis by (simp add: map_erase_def)
  qed
qed

lemma length_map_assign_absent:
  "map_of m k = None \<Longrightarrow> length (map_assign k v m) = Suc (length m)"
  by (induction m) (auto split: if_splits)

lemma count_map_assign_absent:
  "map_of m k = None \<Longrightarrow> count_list (map fst (map_assign k v m)) k = 1"
proof (induction m)
  case Nil
  then show ?case by simp
next
  case (Cons a m)
  from Cons.prems have "k \<notin> fst ` set (a # m)" by (metis map_of_eq_None_iff)
  then have "count_list (map fst (a # m)) k = 0" by (auto simp: count_list_0_iff)
  with Cons show ?case by (cases a) (auto split: if_splits)
qed

lemma count_keys_sorted:
  assumes "map_sorted m" and "map_of m k = Some v"
  shows "count_list (map fst m) k = 1"
proof -
  from assms have "map_assign k v (map_erase k m) = m" by (rule map_assign_erase)
  moreover have "map_of (map_erase k m) k = None" by (simp add: map_of_map_erase)
  ultimately show ?thesis using count_map_assign_absent [of "map_erase k m" k v] by simp
qed

text \<open>
  The map of records after a move from the record of key \<open>k\<close> to another key \<open>tk\<close>,
  which is the target's or a key not in use.
\<close>

lemma move_across:
  assumes sorted: "map_sorted m" and d: "map_of m k = Some d"
    and ci: "map_of (variableCurves d) i = Some c" and svc: "map_sorted (variableCurves d)"
    and uniq: "\<And>k' d'. k' \<noteq> k \<Longrightarrow> map_of m k' = Some d' \<Longrightarrow> map_of (variableCurves d') i = None"
    and ne: "tk \<noteq> k"
    and tgt: "(\<exists>td. map_of m tk = Some td \<and> variableCurves td' = map_assign i c (variableCurves td))
              \<or> (map_of m tk = None \<and> variableCurves td' = [(i, c)])"
    and d1: "variableCurves d1 = map_erase i (variableCurves d)"
    and X2: "X2 = map_assign tk td' (map_assign k d1 m)"
    and X': "X' = (if variableCurves d1 = [] then map_erase k X2 else X2)"
  shows "VariableTotal X' = VariableTotal m" and "owners i X' = [tk]"
    and "map_of X' tk = Some td'" and "count_list (map fst (variableCurves td')) i = 1"
    and "map_of (variableCurves td') i = Some c"
    and "map_of X' k = (if variableCurves d1 = [] then None else Some d1)"
proof -
  let ?m1 = "map_assign k d1 m"
  have s1: "map_sorted ?m1" using sorted by (rule map_sorted_map_assign)
  have s2: "map_sorted X2" unfolding X2 using s1 by (rule map_sorted_map_assign)
  have sX: "map_sorted X'" using s2 by (simp add: X' map_sorted_map_erase)
  have mX2: "map_of X2 = (map_of m)(k \<mapsto> d1, tk \<mapsto> td')"
    by (simp add: X2 map_of_map_assign)
  have mX: "map_of X' = (if variableCurves d1 = [] then (map_of X2)(k := None) else map_of X2)"
    by (simp add: X' map_of_map_erase)
  show tk: "map_of X' tk = Some td'" using ne by (simp add: mX mX2)
  show "map_of X' k = (if variableCurves d1 = [] then None else Some d1)"
    using ne by (simp add: mX mX2)
  have l1: "Suc (length (variableCurves d1)) = length (variableCurves d)"
    using svc ci by (simp add: d1 length_map_erase_present)
  have t1: "VariableTotal ?m1 + length (variableCurves d) = VariableTotal m + length (variableCurves d1)"
    using sorted d by (rule VariableTotal_assign)
  have tgt_i: "\<And>td. map_of m tk = Some td \<Longrightarrow> map_of (variableCurves td) i = None"
    using uniq [OF ne] by blast
  have t2: "VariableTotal X2 = VariableTotal m"
  proof (cases "map_of m tk")
    case None
    with tgt have v: "variableCurves td' = [(i, c)]" by auto
    from None ne have "map_of ?m1 tk = None" by (simp add: map_of_map_assign)
    then have "VariableTotal X2 = VariableTotal ?m1 + length (variableCurves td')"
      unfolding X2 by (rule VariableTotal_assign_absent)
    with t1 l1 v show ?thesis by simp
  next
    case (Some td)
    with tgt have v: "variableCurves td' = map_assign i c (variableCurves td)" by auto
    from Some ne have "map_of ?m1 tk = Some td" by (simp add: map_of_map_assign)
    with s1 have "VariableTotal X2 + length (variableCurves td) =
        VariableTotal ?m1 + length (variableCurves td')"
      unfolding X2 by (rule VariableTotal_assign)
    moreover have "length (variableCurves td') = Suc (length (variableCurves td))"
      using tgt_i [OF Some] by (simp add: v length_map_assign_absent)
    ultimately show ?thesis using t1 l1 by simp
  qed
  show "VariableTotal X' = VariableTotal m"
  proof (cases "variableCurves d1 = []")
    case True
    have "map_of X2 k = Some d1" using ne by (simp add: mX2)
    with s2 have "VariableTotal (map_erase k X2) + length (variableCurves d1) = VariableTotal X2"
      by (rule VariableTotal_erase)
    with True t2 show ?thesis by (simp add: X')
  next
    case False
    with t2 show ?thesis by (simp add: X')
  qed
  show c1: "count_list (map fst (variableCurves td')) i = 1"
    and has: "map_of (variableCurves td') i = Some c"
    using tgt tgt_i by (auto simp: count_map_assign_absent map_of_map_assign)
  show "owners i X' = [tk]"
  proof (rule owners_single [OF sX tk])
    show "map_of (variableCurves td') i \<noteq> None" using has by simp
  next
    fix k' d' assume k': "k' \<noteq> tk" and d': "map_of X' k' = Some d'"
    show "map_of (variableCurves d') i = None"
    proof (cases "k' = k")
      case True
      with d' ne have "d' = d1" by (simp add: mX mX2 split: if_splits)
      then show ?thesis by (simp add: d1 map_of_map_erase)
    next
      case False
      with d' k' have "map_of m k' = Some d'" by (simp add: mX mX2 split: if_splits)
      with False show ?thesis by (rule uniq)
    qed
  qed
qed

text \<open>
  The record that receives the moved variable: the record of the target variable, or
  the record AddPlot makes, whose id is the value of the plot counter.
\<close>

definition target_plot :: "uint \<Rightarrow> PlotCanvas \<Rightarrow> uint" where
  "target_plot t s =
     (case findVariable t (plotData s) of
        None \<Rightarrow> globalPlotId s
      | Some (tk, td, tc) \<Rightarrow> tk)"

lemma OnMoveVariable_moves:
  assumes ok: "records_ok s"
    and oi: "single_owner i (plotData s)" and ot: "single_owner t (plotData s)"
    and src: "findVariable i (plotData s) = Some (k, d, c)" and rok: "record_ok d"
    and fresh: "findVariable t (plotData s) = None \<longrightarrow> map_of (plotData s) (globalPlotId s) = None"
    and away: "\<And>td tc. findVariable t (plotData s) \<noteq> Some (k, td, tc)"
  shows "\<exists>s' d'. OnMoveVariable i t s = Some s' \<and>
           VariableTotal (plotData s') = VariableTotal (plotData s) \<and>
           owners i (plotData s') = [target_plot t s] \<and>
           map_of (plotData s') (target_plot t s) = Some d' \<and>
           count_list (map fst (variableCurves d')) i = 1 \<and>
           map_of (variableCurves d') i = Some c \<and>
           (findVariable t (plotData s) = None \<longrightarrow> variableCurves d' = [(i, c)]) \<and>
           map_of (plotData s') k =
             (if map_erase i (variableCurves d) = [] then None else Some (moved_source i c d))"
proof -
  let ?m = "plotData s"
  from ok have sorted: "map_sorted ?m" and dist: "distinct (handles ?m)"
    and below: "\<forall>h \<in> set (handles ?m). h < nextHandle s"
    by (simp_all add: records_ok_def list_all_iff)
  from src have kd: "(k, d) \<in> set ?m" and ci: "map_of (variableCurves d) i = Some c"
    using findVariable_Some by blast+
  from sorted kd have d: "map_of ?m k = Some d" by (rule map_sorted_map_of)
  from rok ci obtain cv where cv: "map_of (curves (plot d)) c = Some cv" and cid: "cId cv = c"
    by (rule record_ok_curve)
  from rok have svc: "map_sorted (variableCurves d)" by (simp add: record_ok_def)
  have "owners i ?m = [k]" using src oi by (rule findVariable_owners)
  then have "set (owners i ?m) = {k}" by simp
  then have uniq: "map_of (variableCurves d') i = None" if "k' \<noteq> k" "map_of ?m k' = Some d'" for k' d'
    using that unfolding set_owners [OF sorted] by (cases "map_of (variableCurves d') i") auto
  let ?d1 = "moved_source i c d"
  let ?m1 = "map_assign k ?d1 ?m"
  have d1v: "variableCurves ?d1 = map_erase i (variableCurves d)"
    and d1h: "handle (plot ?d1) = handle (plot d)"
    by (simp_all add: moved_source_def)
  have find: "OnMoveVariable_find i t ?m (None, None, 0) =
      (Some k, (case findVariable t ?m of None \<Rightarrow> None | Some (tk, td, tc) \<Rightarrow> Some tk), c)"
    using oi ot src by (rule OnMoveVariable_find_owned)
  have s1: "map_sorted ?m1" using sorted by (rule map_sorted_map_assign)
  have h1: "handles ?m1 = handles ?m"
    using sorted d d1h by (rule handles_map_assign_same)
  show ?thesis
  proof (cases "findVariable t ?m")
    case None
    let ?g = "globalPlotId s"
    let ?nd = "moved_target i cv (new_record s)"
    let ?X2 = "map_assign ?g ?nd ?m1"
    let ?X' = "if variableCurves ?d1 = [] then map_erase k ?X2 else ?X2"
    let ?s2 = "s\<lparr>plotLayout := plotLayout s @ [nextHandle s], plotData := ?X2, emptyPlot := False,
                  globalPlotId := globalPlotId s + 1, nextHandle := Suc (nextHandle s)\<rparr>"
    from None fresh have gfree: "map_of ?m ?g = None" by simp
    with d have ne: "?g \<noteq> k" by auto
    have ndv: "variableCurves ?nd = [(i, c)]"
      by (simp add: moved_target_def new_record_def cid)
    have "handle (plot ?nd) = nextHandle s" by (simp add: moved_target_def new_record_def)
    with below h1 have "handle (plot ?nd) \<notin> set (handles ?m1)" by auto
    with dist h1 have dX2: "distinct (handles ?X2)"
      by (simp add: distinct_handles_map_assign_new)
    have sX2: "map_sorted ?X2" using s1 by (rule map_sorted_map_assign)
    have "map_of ?X2 k = Some ?d1" using ne by (simp add: map_of_map_assign)
    with sX2 dX2 have er: "erase_record (handle (plot ?d1)) ?X2 = map_erase k ?X2"
      by (rule erase_record_key)
    from find None have "OnMoveVariable_find i t ?m (None, None, 0) = (Some k, None, c)" by simp
    from OnMoveVariable_new [OF this d cv]
    have res: "OnMoveVariable i t s = Some (erase_if_empty ?d1 ?s2)" .
    have pd: "plotData (erase_if_empty ?d1 ?s2) = ?X'"
      by (simp add: erase_if_empty_def er)
    have tgt: "(\<exists>td. map_of ?m ?g = Some td \<and> variableCurves ?nd = map_assign i c (variableCurves td))
        \<or> (map_of ?m ?g = None \<and> variableCurves ?nd = [(i, c)])"
      using gfree ndv by simp
    note mv = move_across [OF sorted d ci svc uniq ne tgt d1v refl refl]
    have tp: "target_plot t s = ?g" using None by (simp add: target_plot_def)
    from mv ndv None show ?thesis
      unfolding res tp by (intro exI [of _ "erase_if_empty ?d1 ?s2"] exI [of _ ?nd]) (simp add: pd d1v)
  next
    case (Some found)
    obtain tk td tc where found: "found = (tk, td, tc)" by (cases found)
    with Some have ft: "findVariable t ?m = Some (tk, td, tc)" by simp
    with away have ne: "tk \<noteq> k" by auto
    from ft have "(tk, td) \<in> set ?m" using findVariable_Some by blast
    with sorted have td: "map_of ?m tk = Some td" by (rule map_sorted_map_of)
    let ?td = "moved_target i cv td"
    let ?X2 = "map_assign tk ?td ?m1"
    let ?X' = "if variableCurves ?d1 = [] then map_erase k ?X2 else ?X2"
    let ?s2 = "s\<lparr>plotData := ?X2\<rparr>"
    have tdv: "variableCurves ?td = map_assign i c (variableCurves td)"
      and tdh: "handle (plot ?td) = handle (plot td)"
      by (simp_all add: moved_target_def cid)
    from td ne have td1: "map_of ?m1 tk = Some td" by (simp add: map_of_map_assign)
    have "handles ?X2 = handles ?m1" using s1 td1 tdh by (rule handles_map_assign_same)
    with h1 dist have dX2: "distinct (handles ?X2)" by simp
    have sX2: "map_sorted ?X2" using s1 by (rule map_sorted_map_assign)
    have "map_of ?X2 k = Some ?d1" using ne by (simp add: map_of_map_assign)
    with sX2 dX2 have er: "erase_record (handle (plot ?d1)) ?X2 = map_erase k ?X2"
      by (rule erase_record_key)
    from find ft have "OnMoveVariable_find i t ?m (None, None, 0) = (Some k, Some tk, c)" by simp
    from OnMoveVariable_target [OF this d cv ne td]
    have res: "OnMoveVariable i t s = Some (erase_if_empty ?d1 ?s2)" .
    have pd: "plotData (erase_if_empty ?d1 ?s2) = ?X'"
      by (simp add: erase_if_empty_def er)
    have tgt: "(\<exists>td0. map_of ?m tk = Some td0 \<and> variableCurves ?td = map_assign i c (variableCurves td0))
        \<or> (map_of ?m tk = None \<and> variableCurves ?td = [(i, c)])"
      using td tdv by simp
    note mv = move_across [OF sorted d ci svc uniq ne tgt d1v refl refl]
    have tp: "target_plot t s = tk" using ft by (simp add: target_plot_def)
    from mv ft show ?thesis
      unfolding res tp by (intro exI [of _ "erase_if_empty ?d1 ?s2"] exI [of _ ?td]) (simp add: pd d1v)
  qed
qed

text \<open>Two plots of one variable each: variable 0 in plot 0, variable 1 in plot 1.\<close>

definition canvas_two :: PlotCanvas where
  "canvas_two = snd (AddVariable_name ''y'' EMPTY_PLOT canvas_x)"

text \<open>
  C2: on a well-formed canvas where variableId is in the record of key k and nowhere
  else, the record's mapping is well formed and the plot counter is not the id of a live
  record, OnMoveVariable returns; afterwards the only record whose mapping holds
  variableId is the target's record (the record with the counter's id, holding just this
  entry, when no record owns targetVariableId), that mapping has exactly one entry for
  it, with the curve id it had, and the number of entries of all records is as before.
\<close>

theorem C2_move_conserves:
  assumes ok: "records_ok s"
    and oi: "single_owner i (plotData s)" and ot: "single_owner t (plotData s)"
    and src: "findVariable i (plotData s) = Some (k, d, c)" and rok: "record_ok d"
    and fresh: "map_of (plotData s) (globalPlotId s) = None"
  shows "\<exists>s' d'. OnMoveVariable i t s = Some s' \<and>
           VariableTotal (plotData s') = VariableTotal (plotData s) \<and>
           owners i (plotData s') = [target_plot t s] \<and>
           map_of (plotData s') (target_plot t s) = Some d' \<and>
           count_list (map fst (variableCurves d')) i = 1 \<and>
           map_of (variableCurves d') i = Some c \<and>
           (findVariable t (plotData s) = None \<longrightarrow> variableCurves d' = [(i, c)])"
proof (cases "\<exists>td tc. findVariable t (plotData s) = Some (k, td, tc)")
  case True
  then obtain td tc where ft: "findVariable t (plotData s) = Some (k, td, tc)" by blast
  from ok have sorted: "map_sorted (plotData s)" by (simp add: records_ok_def)
  from src have "(k, d) \<in> set (plotData s)" and ci: "map_of (variableCurves d) i = Some c"
    using findVariable_Some by blast+
  with sorted have d: "map_of (plotData s) k = Some d" by (simp add: map_sorted_map_of)
  from ft have "(k, td) \<in> set (plotData s)" using findVariable_Some by blast
  with sorted d have "td = d" by (simp add: map_sorted_map_of)
  with ft have ft': "findVariable t (plotData s) = Some (k, d, tc)" by simp
  have same: "OnMoveVariable i t s = Some s"
    using sorted oi ot src ft' rok by (rule OnMoveVariable_within_plot)
  have "owners i (plotData s) = [k]" using src oi by (rule findVariable_owners)
  moreover have "target_plot t s = k" using ft by (simp add: target_plot_def)
  moreover have "count_list (map fst (variableCurves d)) i = 1"
    using rok ci by (simp add: record_ok_def count_keys_sorted)
  ultimately show ?thesis using same d ci ft by auto
next
  case False
  then have away: "\<And>td tc. findVariable t (plotData s) \<noteq> Some (k, td, tc)" by blast
  from fresh have "findVariable t (plotData s) = None \<longrightarrow> map_of (plotData s) (globalPlotId s) = None"
    by simp
  from OnMoveVariable_moves [OF ok oi ot src rok this away] show ?thesis
    by (elim exE conjE, intro exI conjI) assumption+
qed

theorem C2_move_conserves_witness:
  "records_ok canvas_two \<and>
   single_owner 0 (plotData canvas_two) \<and> single_owner 1 (plotData canvas_two) \<and>
   findVariable 0 (plotData canvas_two) = Some (0, snd (hd (plotData canvas_two)), 0) \<and>
   record_ok (snd (hd (plotData canvas_two))) \<and>
   map_of (plotData canvas_two) (globalPlotId canvas_two) = None \<and>
   target_plot 1 canvas_two = 1 \<and> VariableTotal (plotData canvas_two) = 2 \<and>
   (\<exists>s' d'. OnMoveVariable 0 1 canvas_two = Some s' \<and>
      VariableTotal (plotData s') = 2 \<and> owners 0 (plotData s') = [1] \<and>
      map_of (plotData s') 1 = Some d' \<and> count_list (map fst (variableCurves d')) 0 = 1)"
proof -
  have h1: "records_ok canvas_two" by code_simp
  have h2: "single_owner 0 (plotData canvas_two)" by code_simp
  have h3: "single_owner 1 (plotData canvas_two)" by code_simp
  have h4: "findVariable 0 (plotData canvas_two) = Some (0, snd (hd (plotData canvas_two)), 0)"
    by code_simp
  have h5: "record_ok (snd (hd (plotData canvas_two)))" by code_simp
  have h6: "map_of (plotData canvas_two) (globalPlotId canvas_two) = None" by code_simp
  have h7: "target_plot 1 canvas_two = 1" by code_simp
  have h8: "VariableTotal (plotData canvas_two) = 2" by code_simp
  from C2_move_conserves [OF h1 h2 h3 h4 h5 h6, unfolded h7 h8] h1 h2 h3 h4 h5 h6 h7 h8
  show ?thesis by blast
qed

text \<open>
  C7: on a well-formed canvas where variableId is the only variable of the record of
  key k and is in no other record, and the plot counter is not the id of a live record,
  moving it to another variable's plot or to a new plot returns, and no record has the
  key k afterwards: PlotByVariable of a variable that is in some record is never k.
\<close>

theorem C7_move_last_destroys:
  assumes ok: "records_ok s"
    and oi: "single_owner i (plotData s)" and ot: "single_owner t (plotData s)"
    and src: "findVariable i (plotData s) = Some (k, d, c)"
    and last: "variableCurves d = [(i, c)]" and rok: "record_ok d" and ti: "t \<noteq> i"
    and fresh: "map_of (plotData s) (globalPlotId s) = None"
  shows "\<exists>s'. OnMoveVariable i t s = Some s' \<and> map_of (plotData s') k = None \<and>
           (\<forall>v. findVariable v (plotData s') \<noteq> None \<longrightarrow> PlotByVariable s' v \<noteq> k)"
proof -
  from ok have sorted: "map_sorted (plotData s)" by (simp add: records_ok_def)
  from src have "(k, d) \<in> set (plotData s)" using findVariable_Some by blast
  with sorted have d: "map_of (plotData s) k = Some d" by (simp add: map_sorted_map_of)
  have away: "findVariable t (plotData s) \<noteq> Some (k, td, tc)" for td tc
  proof
    assume ft: "findVariable t (plotData s) = Some (k, td, tc)"
    then have "(k, td) \<in> set (plotData s)" and "map_of (variableCurves td) t = Some tc"
      using findVariable_Some by blast+
    with sorted d have "map_of (variableCurves d) t = Some tc" by (simp add: map_sorted_map_of)
    with last ti show False by (simp split: if_splits)
  qed
  from fresh have "findVariable t (plotData s) = None \<longrightarrow> map_of (plotData s) (globalPlotId s) = None"
    by simp
  from OnMoveVariable_moves [OF ok oi ot src rok this away] last
  obtain s' where res: "OnMoveVariable i t s = Some s'" and gone: "map_of (plotData s') k = None"
    by (auto simp: map_erase_def)
  have "PlotByVariable s' v \<noteq> k" if "findVariable v (plotData s') \<noteq> None" for v
  proof -
    from that obtain k' d' c' where f: "findVariable v (plotData s') = Some (k', d', c')"
      by (cases "findVariable v (plotData s')") auto
    then have "(k', d') \<in> set (plotData s')" using findVariable_Some by blast
    then have "map_of (plotData s') k' \<noteq> None" by (metis map_of_eq_None_iff fst_conv image_eqI)
    with gone have "k' \<noteq> k" by auto
    with f show ?thesis by (simp add: PlotByVariable_def)
  qed
  with res gone show ?thesis by blast
qed

theorem C7_move_last_destroys_witness:
  "records_ok canvas_two \<and>
   single_owner 0 (plotData canvas_two) \<and> single_owner 5 (plotData canvas_two) \<and>
   findVariable 0 (plotData canvas_two) = Some (0, snd (hd (plotData canvas_two)), 0) \<and>
   variableCurves (snd (hd (plotData canvas_two))) = [(0, 0)] \<and>
   record_ok (snd (hd (plotData canvas_two))) \<and>
   map_of (plotData canvas_two) (globalPlotId canvas_two) = None \<and>
   (\<exists>s'. OnMoveVariable 0 5 canvas_two = Some s' \<and> map_of (plotData s') 0 = None \<and>
      findVariable 0 (plotData s') \<noteq> None \<and> PlotByVariable s' 0 \<noteq> 0)"
proof -
  have h1: "records_ok canvas_two" by code_simp
  have h2: "single_owner 0 (plotData canvas_two)" by code_simp
  have h3: "single_owner 5 (plotData canvas_two)" by code_simp
  have h4: "findVariable 0 (plotData canvas_two) = Some (0, snd (hd (plotData canvas_two)), 0)"
    by code_simp
  have h5: "variableCurves (snd (hd (plotData canvas_two))) = [(0, 0)]" by code_simp
  have h6: "record_ok (snd (hd (plotData canvas_two)))" by code_simp
  have h7: "(5::uint) \<noteq> 0" by simp
  have h8: "map_of (plotData canvas_two) (globalPlotId canvas_two) = None" by code_simp
  from C7_move_last_destroys [OF h1 h2 h3 h4 h5 h6 h7 h8]
  obtain s' where s': "OnMoveVariable 0 5 canvas_two = Some s'"
    and gone: "map_of (plotData s') 0 = None"
    and pbv: "\<forall>v. findVariable v (plotData s') \<noteq> None \<longrightarrow> PlotByVariable s' v \<noteq> 0"
    by blast
  have "findVariable 0 (plotData (the (OnMoveVariable 0 5 canvas_two))) \<noteq> None" by code_simp
  with s' have "findVariable 0 (plotData s') \<noteq> None" by simp
  with s' gone pbv h1 h2 h3 h4 h5 h6 h8 show ?thesis by blast
qed

subsection \<open>Restart: the label of an aged curve\<close>

lemma yVariableContainer_OnSetVariableLabel [simp]:
  "yVariableContainer (OnSetVariableLabel i l s) = yVariableContainer s"
  by (simp add: OnSetVariableLabel_def split: option.splits)












lemmas restart_defs =
  Restart_def Restart_entries_def Restart_curve_def Restart_clone_def
  AddVariable_name_def VariablePillContainer_AddVariablePill_def OnAddVariable_def
  AddVariable_def AddPlot_def SetVariableLabel_def VariablePillContainer_SetVariablePillLabel_def
  OnSetVariableLabel_def IncrementalPlot_Curve_def IncrementalPlot_AddCurve_def
  IncrementalPlot_SetCurveLabel_def PlotManager_AddCurve_def PlotManager_RemoveCurve_def
  hideEmptyPlot_def Let_def

lemma word_less_ne_max: "(a::uint) < b \<Longrightarrow> a \<noteq> 0xFFFFFFFF"
proof
  assume "a < b" and "a = 0xFFFFFFFF"
  then have "uint (0xFFFFFFFF::uint) < uint b" by (simp add: word_less_def)
  moreover have "uint b < 2 ^ 32" using uint_lt2p [of b] by simp
  ultimately show False by simp
qed

text \<open>
  A canvas with a single plot record: the record of key and id \<open>p\<close>, whose plot has
  the address \<open>h\<close> and holds \<open>cs\<close>, with the mapping \<open>vc\<close>; \<open>pills\<close> are the slots.
\<close>

definition single_plot ::
  "nat list \<Rightarrow> uint \<Rightarrow> nat \<Rightarrow> (uint \<times> PlotCurve) list \<Rightarrow> (uint \<times> uint) list \<Rightarrow> bool \<Rightarrow>
   (uint \<times> VariablePill) list \<Rightarrow> (string \<times> uint) list \<Rightarrow> uint \<Rightarrow> uint \<Rightarrow> uint \<Rightarrow> nat \<Rightarrow>
   PlotCanvas" where
  "single_plot L p h cs vc e pills reg g nv nc nh =
     \<lparr>plotLayout = L,
      plotData = [(p, \<lparr>idPlot = p, plot = \<lparr>handle = h, curves = cs\<rparr>, variableCurves = vc\<rparr>)],
      emptyPlot = e, yVariableContainer = pills, plotManager = reg,
      globalPlotId = g, globalVariableId = nv, globalCurveId = nc, nextHandle = nh\<rparr>"

lemma rfind_append:
  "rfind c (xs @ ys) =
     (case rfind c ys of Some j \<Rightarrow> Some (length xs + j) | None \<Rightarrow> rfind c xs)"
  by (induction xs) (auto split: option.splits)

lemma rfind_suffix_1: "rfind (CHR ''_'') (n @ ''_1'') = Some (length n)"
  by (simp add: rfind_append)

lemma atoi_1: "atoi ''1'' = 1"
  by code_simp

lemma show_uint_2: "show_uint 2 = ''2''"
  by code_simp

lemma restart_once:
  assumes p: "p \<noteq> EMPTY_PLOT" and v: "v < nv" and c: "c < nc"
  shows "Restart
           (single_plot L p h [(c, \<lparr>cId = c, cLabel = n, cActive = True, cAge = 0\<rparr>)] [(v, c)]
              e [(v, \<lparr>Name = n, Text = n\<rparr>)] reg g nv nc nh) =
         single_plot L p h
           [(c, \<lparr>cId = c, cLabel = n @ ''_1'', cActive = False, cAge = 1\<rparr>),
            (nc, \<lparr>cId = nc, cLabel = n, cActive = True, cAge = 0\<rparr>)]
           [(v, c), (nv, nc)] False
           [(v, \<lparr>Name = n, Text = n @ ''_1''\<rparr>), (nv, \<lparr>Name = n, Text = n\<rparr>)]
           (filter (\<lambda>e. snd e \<noteq> c) reg @ [(n, nc)]) g (nv + 1) (nc + 1) nh"
proof -
  from v have v1: "\<not> nv < v" "nv \<noteq> v" "v \<noteq> EMPTY_VARIABLE"
    by (auto simp: EMPTY_VARIABLE_def dest: word_less_ne_max)
  from c have c1: "\<not> nc < c" "nc \<noteq> c" by auto
  show ?thesis
    by (simp add: single_plot_def restart_defs p v1 c1)
qed

lemma restart_again:
  assumes p: "p \<noteq> EMPTY_PLOT" and v: "v < v2" "v2 < nv" and c: "c < c2" "c2 < nc"
  shows "Restart
           (single_plot L p h
              [(c, \<lparr>cId = c, cLabel = n @ ''_1'', cActive = False, cAge = 1\<rparr>),
               (c2, \<lparr>cId = c2, cLabel = n, cActive = True, cAge = 0\<rparr>)]
              [(v, c), (v2, c2)] e
              [(v, \<lparr>Name = n, Text = n @ ''_1''\<rparr>), (v2, \<lparr>Name = n, Text = n\<rparr>)]
              reg g nv nc nh) =
         single_plot L p h
           [(c, \<lparr>cId = c, cLabel = n @ ''_2'', cActive = False, cAge = 2\<rparr>),
            (c2, \<lparr>cId = c2, cLabel = n @ ''_1'', cActive = False, cAge = 1\<rparr>),
            (nc, \<lparr>cId = nc, cLabel = n, cActive = True, cAge = 0\<rparr>)]
           [(v, c), (v2, c2), (nv, nc)] False
           [(v, \<lparr>Name = n, Text = n @ ''_2''\<rparr>), (v2, \<lparr>Name = n, Text = n @ ''_1''\<rparr>),
            (nv, \<lparr>Name = n, Text = n\<rparr>)]
           (filter (\<lambda>e. snd e \<noteq> c2) reg @ [(n, nc)]) g (nv + 1) (nc + 1) nh"
proof -
  from v have "v < nv" by simp
  with v have v1: "\<not> nv < v" "nv \<noteq> v" "v \<noteq> EMPTY_VARIABLE" "\<not> v2 < v" "v2 \<noteq> v" "v \<noteq> v2"
    "\<not> nv < v2" "nv \<noteq> v2"
    by (auto simp: EMPTY_VARIABLE_def dest: word_less_ne_max)
  from c have "c < nc" by simp
  with c have c1: "\<not> nc < c" "nc \<noteq> c" "\<not> c2 < c" "c2 \<noteq> c" "c \<noteq> c2" "\<not> nc < c2" "nc \<noteq> c2"
    by auto
  show ?thesis
    by (simp add: single_plot_def restart_defs p v1 c1 rfind_suffix_1 atoi_1 show_uint_2)
qed


text \<open>
  C3: a canvas with one plot that holds one active curve of age 0, for a variable whose
  slot has the name and the text \<open>n\<close> (the claim's "v"), with ids below the counters
  that give the next ids and counters that do not wrap. One Restart leaves the old curve
  inactive with the label \<open>n_1\<close> and adds an active curve labelled \<open>n\<close> for a new
  variable in the same plot; a second Restart gives the first curve the label \<open>n_2\<close>,
  freezes the second as \<open>n_1\<close> and adds a third, active and labelled \<open>n\<close>.
\<close>

theorem C3_restart_ladder:
  assumes "p \<noteq> EMPTY_PLOT" and "v < nv" and "nv < nv + 1" and "c < nc" and "nc < nc + 1"
  shows "Restart
           (single_plot L p h [(c, \<lparr>cId = c, cLabel = n, cActive = True, cAge = 0\<rparr>)] [(v, c)]
              e [(v, \<lparr>Name = n, Text = n\<rparr>)] reg g nv nc nh) =
         single_plot L p h
           [(c, \<lparr>cId = c, cLabel = n @ ''_1'', cActive = False, cAge = 1\<rparr>),
            (nc, \<lparr>cId = nc, cLabel = n, cActive = True, cAge = 0\<rparr>)]
           [(v, c), (nv, nc)] False
           [(v, \<lparr>Name = n, Text = n @ ''_1''\<rparr>), (nv, \<lparr>Name = n, Text = n\<rparr>)]
           (filter (\<lambda>e. snd e \<noteq> c) reg @ [(n, nc)]) g (nv + 1) (nc + 1) nh
       \<and> Restart (Restart
           (single_plot L p h [(c, \<lparr>cId = c, cLabel = n, cActive = True, cAge = 0\<rparr>)] [(v, c)]
              e [(v, \<lparr>Name = n, Text = n\<rparr>)] reg g nv nc nh)) =
         single_plot L p h
           [(c, \<lparr>cId = c, cLabel = n @ ''_2'', cActive = False, cAge = 2\<rparr>),
            (nc, \<lparr>cId = nc, cLabel = n @ ''_1'', cActive = False, cAge = 1\<rparr>),
            (nc + 1, \<lparr>cId = nc + 1, cLabel = n, cActive = True, cAge = 0\<rparr>)]
           [(v, c), (nv, nc), (nv + 1, nc + 1)] False
           [(v, \<lparr>Name = n, Text = n @ ''_2''\<rparr>), (nv, \<lparr>Name = n, Text = n @ ''_1''\<rparr>),
            (nv + 1, \<lparr>Name = n, Text = n\<rparr>)]
           (filter (\<lambda>e. snd e \<noteq> nc) (filter (\<lambda>e. snd e \<noteq> c) reg @ [(n, nc)]) @ [(n, nc + 1)])
           g (nv + 1 + 1) (nc + 1 + 1) nh"
  using assms restart_once [of p v nv c nc L h n e reg g nh]
    restart_again [of p v nv "nv + 1" c nc "nc + 1" L h n False
      "filter (\<lambda>e. snd e \<noteq> c) reg @ [(n, nc)]" g nh]
  by simp

definition canvas_v :: PlotCanvas where
  "canvas_v = snd (AddVariable_name ''v'' EMPTY_PLOT PlotCanvas_new)"

theorem C3_restart_ladder_witness:
  "canvas_v =
     single_plot [0, 1] 0 1 [(0, \<lparr>cId = 0, cLabel = ''v'', cActive = True, cAge = 0\<rparr>)] [(0, 0)]
       False [(0, \<lparr>Name = ''v'', Text = ''v''\<rparr>)] [(''v'', 0)] 1 1 1 2 \<and>
   Restart canvas_v =
     single_plot [0, 1] 0 1
       [(0, \<lparr>cId = 0, cLabel = ''v_1'', cActive = False, cAge = 1\<rparr>),
        (1, \<lparr>cId = 1, cLabel = ''v'', cActive = True, cAge = 0\<rparr>)]
       [(0, 0), (1, 1)] False
       [(0, \<lparr>Name = ''v'', Text = ''v_1''\<rparr>), (1, \<lparr>Name = ''v'', Text = ''v''\<rparr>)]
       [(''v'', 1)] 1 2 2 2 \<and>
   Restart (Restart canvas_v) =
     single_plot [0, 1] 0 1
       [(0, \<lparr>cId = 0, cLabel = ''v_2'', cActive = False, cAge = 2\<rparr>),
        (1, \<lparr>cId = 1, cLabel = ''v_1'', cActive = False, cAge = 1\<rparr>),
        (2, \<lparr>cId = 2, cLabel = ''v'', cActive = True, cAge = 0\<rparr>)]
       [(0, 0), (1, 1), (2, 2)] False
       [(0, \<lparr>Name = ''v'', Text = ''v_2''\<rparr>), (1, \<lparr>Name = ''v'', Text = ''v_1''\<rparr>),
        (2, \<lparr>Name = ''v'', Text = ''v''\<rparr>)]
       [(''v'', 2)] 1 3 3 2"
proof -
  have start: "canvas_v =
     single_plot [0, 1] 0 1 [(0, \<lparr>cId = 0, cLabel = ''v'', cActive = True, cAge = 0\<rparr>)] [(0, 0)]
       False [(0, \<lparr>Name = ''v'', Text = ''v''\<rparr>)] [(''v'', 0)] 1 1 1 2"
    by code_simp
  have h: "(0::uint) \<noteq> EMPTY_PLOT" "(0::uint) < 1" "(1::uint) < 1 + 1"
    by (simp_all add: EMPTY_PLOT_def)
  note ladder =
    C3_restart_ladder [OF h(1) h(2) h(3) h(2) h(3), of "[0, 1]" 1 "''v''" False "[(''v'', 0)]" 1 2]
  have r1: "Restart canvas_v =
     single_plot [0, 1] 0 1
       [(0, \<lparr>cId = 0, cLabel = ''v_1'', cActive = False, cAge = 1\<rparr>),
        (1, \<lparr>cId = 1, cLabel = ''v'', cActive = True, cAge = 0\<rparr>)]
       [(0, 0), (1, 1)] False
       [(0, \<lparr>Name = ''v'', Text = ''v_1''\<rparr>), (1, \<lparr>Name = ''v'', Text = ''v''\<rparr>)]
       [(''v'', 1)] 1 2 2 2"
    unfolding start using ladder [THEN conjunct1] by simp
  have r2: "Restart (Restart canvas_v) =
     single_plot [0, 1] 0 1
       [(0, \<lparr>cId = 0, cLabel = ''v_2'', cActive = False, cAge = 2\<rparr>),
        (1, \<lparr>cId = 1, cLabel = ''v_1'', cActive = False, cAge = 1\<rparr>),
        (2, \<lparr>cId = 2, cLabel = ''v'', cActive = True, cAge = 0\<rparr>)]
       [(0, 0), (1, 1), (2, 2)] False
       [(0, \<lparr>Name = ''v'', Text = ''v_2''\<rparr>), (1, \<lparr>Name = ''v'', Text = ''v_1''\<rparr>),
        (2, \<lparr>Name = ''v'', Text = ''v''\<rparr>)]
       [(''v'', 2)] 1 3 3 2"
    unfolding start using ladder [THEN conjunct2] by simp
  show ?thesis using start r1 r2 by (intro conjI)
qed


end
